theory Spec2Isabelle
  imports Main "HOL-Library.Log_Nat"
begin

section \<open>Strings\<close>

text \<open>
  A JavaScript string is modelled as a \<open>string\<close> (a list of \<open>char\<close>), each \<open>char\<close>
  standing for one code unit below 256 (ASCII and Latin-1); strings with other code
  units are outside the model. The string methods the text route and the OCR service
  call are written out on that alphabet.
\<close>

text \<open>\<open>String.prototype.toLowerCase\<close>: \<open>A\<close>-\<open>Z\<close> and the capital letters of Latin-1
  (\<open>0xC0\<close>-\<open>0xDE\<close> without the multiplication sign \<open>0xD7\<close>) go to the code unit 32
  above; every other code unit stays.\<close>

definition upper_letters :: string where
  "upper_letters =
     ''ABCDEFGHIJKLMNOPQRSTUVWXYZ'' @
       [CHR 0xC0, CHR 0xC1, CHR 0xC2, CHR 0xC3, CHR 0xC4, CHR 0xC5, CHR 0xC6, CHR 0xC7,
        CHR 0xC8, CHR 0xC9, CHR 0xCA, CHR 0xCB, CHR 0xCC, CHR 0xCD, CHR 0xCE, CHR 0xCF,
        CHR 0xD0, CHR 0xD1, CHR 0xD2, CHR 0xD3, CHR 0xD4, CHR 0xD5, CHR 0xD6, CHR 0xD8,
        CHR 0xD9, CHR 0xDA, CHR 0xDB, CHR 0xDC, CHR 0xDD, CHR 0xDE]"

definition lower_letters :: string where
  "lower_letters =
     ''abcdefghijklmnopqrstuvwxyz'' @
       [CHR 0xE0, CHR 0xE1, CHR 0xE2, CHR 0xE3, CHR 0xE4, CHR 0xE5, CHR 0xE6, CHR 0xE7,
        CHR 0xE8, CHR 0xE9, CHR 0xEA, CHR 0xEB, CHR 0xEC, CHR 0xED, CHR 0xEE, CHR 0xEF,
        CHR 0xF0, CHR 0xF1, CHR 0xF2, CHR 0xF3, CHR 0xF4, CHR 0xF5, CHR 0xF6, CHR 0xF8,
        CHR 0xF9, CHR 0xFA, CHR 0xFB, CHR 0xFC, CHR 0xFD, CHR 0xFE]"

definition lower_char :: "char \<Rightarrow> char" where
  "lower_char c =
     (case map_of (zip upper_letters lower_letters) c of
        Some d \<Rightarrow> d
      | None \<Rightarrow> c)"

definition toLowerCase :: "string \<Rightarrow> string" where
  "toLowerCase s = map lower_char s"

text \<open>\<open>String.prototype.trim\<close> removes white space and line terminators from both
  ends: below 256 these are TAB, LF, VT, FF, CR, SPACE and the no-break space.\<close>

definition is_space :: "char \<Rightarrow> bool" where
  "is_space c =
     (c \<in> set [CHR 0x09, CHR 0x0A, CHR 0x0B, CHR 0x0C, CHR 0x0D, CHR 0x20, CHR 0xA0])"

definition trim :: "string \<Rightarrow> string" where
  "trim s = rev (dropWhile is_space (rev (dropWhile is_space s)))"

text \<open>\<open>s.includes(k)\<close>: \<open>k\<close> occurs in \<open>s\<close> as a contiguous substring.\<close>

fun starts_with :: "string \<Rightarrow> string \<Rightarrow> bool" where
  "starts_with s [] = True"
| "starts_with [] (k # ks) = False"
| "starts_with (c # cs) (k # ks) = (c = k \<and> starts_with cs ks)"

fun str_includes :: "string \<Rightarrow> string \<Rightarrow> bool" where
  "str_includes [] k = (k = [])"
| "str_includes (c # cs) k = (starts_with (c # cs) k \<or> str_includes cs k)"

text \<open>\<open>s.split(sep)\<close> for a separator of one code unit: always at least one piece,
  empty pieces kept.\<close>

fun split_on :: "char \<Rightarrow> string \<Rightarrow> string list" where
  "split_on sep [] = [[]]"
| "split_on sep (c # cs) =
     (if c = sep then [] # split_on sep cs
      else (case split_on sep cs of
              [] \<Rightarrow> [[c]]
            | p # ps \<Rightarrow> (c # p) # ps))"

text \<open>The regular expression \<open>/(\d+\/\d+|#\d+)/\<close> of the text route: the leftmost
  position where one of the two alternatives matches, the first alternative tried
  first, each \<open>\d+\<close> greedy.\<close>

definition is_digit :: "char \<Rightarrow> bool" where
  "is_digit c = (c \<in> set ''0123456789'')"

definition match_fraction :: "string \<Rightarrow> string option" where
  "match_fraction s =
     (let d1 = takeWhile is_digit s in
      if d1 = [] then None
      else (case dropWhile is_digit s of
              [] \<Rightarrow> None
            | c # r \<Rightarrow>
                if c = CHR ''/'' \<and> takeWhile is_digit r \<noteq> []
                then Some (d1 @ CHR ''/'' # takeWhile is_digit r) else None))"

definition match_hash :: "string \<Rightarrow> string option" where
  "match_hash s =
     (case s of
        [] \<Rightarrow> None
      | c # r \<Rightarrow>
          if c = CHR ''#'' \<and> takeWhile is_digit r \<noteq> []
          then Some (CHR ''#'' # takeWhile is_digit r) else None)"

definition match_here :: "string \<Rightarrow> string option" where
  "match_here s = (case match_fraction s of Some m \<Rightarrow> Some m | None \<Rightarrow> match_hash s)"

fun numberMatch :: "string \<Rightarrow> string option" where
  "numberMatch [] = None"
| "numberMatch (c # cs) =
     (case match_here (c # cs) of Some m \<Rightarrow> Some m | None \<Rightarrow> numberMatch cs)"

section \<open>Numbers\<close>

text \<open>
  A JavaScript number is an IEEE 754 binary64 value. The finite ones are rationals, and
  each arithmetic operation returns the exact result rounded to the nearest
  representable value, ties to the even significand. \<open>fl\<close> is that rounding:
  53 bits of significand, exponents from \<open>-1074\<close> upwards (so subnormals are covered).
  A decimal literal of the source denotes the rounding of its value: \<open>1.1\<close> is
  \<open>fl (11 / 10)\<close>, while \<open>450.00\<close>, \<open>100\<close> and \<open>5\<close> are exact. Infinities and NaN
  are not represented (no operation below produces them from operands smaller than
  \<open>2 ^ 1000\<close>), and the two zeros are one.
\<close>

type_synonym number = rat

definition ilog2 :: "rat \<Rightarrow> int" where
  \<comment> \<open>the integer part of the binary logarithm of a positive rational\<close>
  "ilog2 x =
     (if 1 \<le> x then bitlen \<lfloor>x\<rfloor> - 1
      else - bitlen (\<lceil>1 / x\<rceil> - 1))"

definition pow2 :: "int \<Rightarrow> rat" where
  "pow2 e = (if 0 \<le> e then 2 ^ nat e else 1 / 2 ^ nat (- e))"

definition round_even :: "rat \<Rightarrow> int" where
  "round_even y =
     (let f = \<lfloor>y\<rfloor>; r = y - of_int f in
      if r < 1 / 2 then f
      else if 1 / 2 < r then f + 1
      else if even f then f else f + 1)"

definition fl :: "rat \<Rightarrow> number" where
  "fl x =
     (if x = 0 then 0
      else (let a = \<bar>x\<bar>;
                e = max (ilog2 a - 52) (- 1074)
            in sgn x * of_int (round_even (a / pow2 e)) * pow2 e))"

definition fadd :: "number \<Rightarrow> number \<Rightarrow> number" where
  "fadd a b = fl (a + b)"

definition fmul :: "number \<Rightarrow> number \<Rightarrow> number" where
  "fmul a b = fl (a * b)"

definition fdiv :: "number \<Rightarrow> number \<Rightarrow> number" where
  \<comment> \<open>the divisors of this program are the literals 100 and 5\<close>
  "fdiv a b = fl (a / b)"

text \<open>\<open>Math.round\<close>: the nearest integer, a tie going towards plus infinity.\<close>

definition Math_round :: "number \<Rightarrow> number" where
  "Math_round x = of_int \<lfloor>x + 1 / 2\<rfloor>"

text \<open>\<open>Math.min\<close> of two finite numbers is \<open>min\<close>.\<close>

section \<open>The text route: catalog, condition table, line parser\<close>

datatype CardCondition = Mint | NearMint | LightlyPlayed | ModeratelyPlayed | HeavilyPlayed

record db_card =
  db_id :: number
  db_name :: string
  db_set :: string
  db_number :: string
  db_marketPrice :: number
  db_variants :: "CardCondition list"

text \<open>Every entry of the source lists the same four variants.\<close>

definition four_variants :: "CardCondition list" where
  "four_variants = [NearMint, LightlyPlayed, ModeratelyPlayed, HeavilyPlayed]"

definition MOCK_CARD_DATABASE :: "db_card list" where
  "MOCK_CARD_DATABASE =
     [\<lparr>db_id = 1, db_name = ''Charizard'', db_set = ''Base Set'', db_number = ''4/102'',
       db_marketPrice = 450, db_variants = four_variants\<rparr>,
      \<lparr>db_id = 2, db_name = ''Pikachu VMAX'', db_set = ''Vivid Voltage'', db_number = ''044/185'',
       db_marketPrice = 85, db_variants = four_variants\<rparr>,
      \<lparr>db_id = 3, db_name = ''Blastoise'', db_set = ''Base Set'', db_number = ''2/102'',
       db_marketPrice = 180, db_variants = four_variants\<rparr>,
      \<lparr>db_id = 4, db_name = ''Venusaur'', db_set = ''Base Set'', db_number = ''15/102'',
       db_marketPrice = 120, db_variants = four_variants\<rparr>,
      \<lparr>db_id = 5, db_name = ''Pikachu'', db_set = ''Base Set'', db_number = ''58/102'',
       db_marketPrice = 35, db_variants = four_variants\<rparr>,
      \<lparr>db_id = 6, db_name = ''Alakazam'', db_set = ''Base Set'', db_number = ''1/102'',
       db_marketPrice = 90, db_variants = four_variants\<rparr>]"

text \<open>\<open>CONDITIONS\<close> is an object literal; \<open>Object.entries\<close> lists its string keys in
  insertion order, so the table is the list of pairs in the order of the source.\<close>

definition CONDITIONS :: "(string \<times> CardCondition) list" where
  "CONDITIONS =
     [(''mint'', Mint),
      (''near mint'', NearMint),
      (''nm'', NearMint),
      (''lightly played'', LightlyPlayed),
      (''lp'', LightlyPlayed),
      (''moderately played'', ModeratelyPlayed),
      (''mp'', ModeratelyPlayed),
      (''heavily played'', HeavilyPlayed),
      (''hp'', HeavilyPlayed),
      (''damaged'', HeavilyPlayed)]"

text \<open>The loop over the table: the default \<open>Near Mint\<close> is kept until the first keyword
  contained in the line, where the loop breaks.\<close>

fun scanConditions :: "(string \<times> CardCondition) list \<Rightarrow> string \<Rightarrow> CardCondition" where
  "scanConditions [] lowerLine = NearMint"
| "scanConditions ((keyword, conditionName) # rest) lowerLine =
     (if str_includes lowerLine keyword then conditionName else scanConditions rest lowerLine)"

definition extractCondition :: "string \<Rightarrow> CardCondition" where
  "extractCondition lowerLine = scanConditions CONDITIONS lowerLine"

definition extractCardNumber :: "string \<Rightarrow> string" where
  "extractCardNumber trimmedLine =
     (case numberMatch trimmedLine of
        None \<Rightarrow> []
      | Some m \<Rightarrow> remove1 (CHR ''#'') m)"

text \<open>The score of one catalog entry, the body of the loop over the catalog.\<close>

definition cardScore :: "string \<Rightarrow> string \<Rightarrow> db_card \<Rightarrow> int" where
  "cardScore lowerLine cardNumber dbCard =
     (if str_includes lowerLine (toLowerCase (db_name dbCard)) then 3 else 0)
   + (if str_includes lowerLine (toLowerCase (db_set dbCard)) then 2 else 0)
   + (if cardNumber \<noteq> [] \<and> str_includes (db_number dbCard) cardNumber then 2 else 0)
   + int (length (filter (str_includes lowerLine) (split_on (CHR '' '') (toLowerCase (db_name dbCard)))))"

definition bestStep ::
  "string \<Rightarrow> string \<Rightarrow> db_card option \<times> int \<Rightarrow> db_card \<Rightarrow> db_card option \<times> int" where
  "bestStep lowerLine cardNumber st dbCard =
     (let score = cardScore lowerLine cardNumber dbCard in
      if score > snd st then (Some dbCard, score) else st)"

definition findBest :: "db_card list \<Rightarrow> string \<Rightarrow> string \<Rightarrow> db_card option \<times> int" where
  "findBest db lowerLine cardNumber = foldl (bestStep lowerLine cardNumber) (None, 0) db"

definition conditionMultipliers :: "CardCondition \<Rightarrow> number" where
  "conditionMultipliers c =
     (case c of
        Mint \<Rightarrow> fl (11 / 10)
      | NearMint \<Rightarrow> 1
      | LightlyPlayed \<Rightarrow> fl (8 / 10)
      | ModeratelyPlayed \<Rightarrow> fl (6 / 10)
      | HeavilyPlayed \<Rightarrow> fl (4 / 10))"

record parsed_card =
  card_id :: number
  card_name :: string
  card_set :: string
  card_number :: string
  condition :: CardCondition
  marketPrice :: number
  ourOffer :: number
  confidence :: number
  originalText :: string

text \<open>The object literal returned for a match. \<open>r\<close> is the value \<open>Math.random()\<close>
  returns at this call.\<close>

definition buildCard :: "db_card \<Rightarrow> CardCondition \<Rightarrow> int \<Rightarrow> number \<Rightarrow> string \<Rightarrow> parsed_card" where
  "buildCard bestMatch cond highestScore r trimmedLine =
     (let conditionPrice = fmul (db_marketPrice bestMatch) (conditionMultipliers cond);
          offer = fmul conditionPrice (fl (7 / 10))
      in \<lparr>card_id = fadd (db_id bestMatch) r,
          card_name = db_name bestMatch,
          card_set = db_set bestMatch,
          card_number = db_number bestMatch,
          condition = cond,
          marketPrice = fdiv (Math_round (fmul conditionPrice 100)) 100,
          ourOffer = fdiv (Math_round (fmul offer 100)) 100,
          confidence = fdiv (of_int highestScore) 5,
          originalText = trimmedLine\<rparr>)"

text \<open>\<open>parseCardLine\<close>, with the catalog as a parameter (the source reads the constant
  \<open>MOCK_CARD_DATABASE\<close>) and the random number of the call as a parameter.\<close>

definition parseCardLine :: "db_card list \<Rightarrow> number \<Rightarrow> string \<Rightarrow> parsed_card option" where
  "parseCardLine db r line =
     (let trimmedLine = trim line in
      if trimmedLine = [] then None
      else
        (let lowerLine = toLowerCase trimmedLine;
             cond = extractCondition lowerLine;
             cardNumber = extractCardNumber trimmedLine
         in (case findBest db lowerLine cardNumber of
               (None, highestScore) \<Rightarrow> None
             | (Some bestMatch, highestScore) \<Rightarrow>
                 if highestScore \<ge> 2
                 then Some (buildCard bestMatch cond highestScore r trimmedLine)
                 else None)))"

text \<open>The score the loop gives an entry for a line, and the highest score it ends with.\<close>

definition lineScore :: "string \<Rightarrow> db_card \<Rightarrow> int" where
  "lineScore line dbCard =
     cardScore (toLowerCase (trim line)) (extractCardNumber (trim line)) dbCard"

definition lineHighestScore :: "db_card list \<Rightarrow> string \<Rightarrow> int" where
  "lineHighestScore db line =
     snd (findBest db (toLowerCase (trim line)) (extractCardNumber (trim line)))"

text \<open>\<open>Math.round(x * 100) / 100\<close>, the rounding to two decimals of the route.\<close>

definition round2 :: "number \<Rightarrow> number" where
  "round2 x = fdiv (Math_round (fmul x 100)) 100"

section \<open>The text route: the request handler\<close>

text \<open>
  The loop of \<open>POST\<close> over the lines. Its state is the two arrays and the number of
  \<open>Math.random()\<close> calls made so far; \<open>rnd k\<close> is the value the \<open>k\<close>-th call returns
  (the call is only made when a line matches).
\<close>

type_synonym loop_state = "parsed_card list \<times> string list \<times> nat"

text \<open>Whether the parser returns a card for a line does not depend on the random
  number, so it is read off a call with 0.\<close>

definition lineMatches :: "db_card list \<Rightarrow> string \<Rightarrow> bool" where
  "lineMatches db line = (parseCardLine db 0 line \<noteq> None)"

definition processStep :: "db_card list \<Rightarrow> (nat \<Rightarrow> number) \<Rightarrow> loop_state \<Rightarrow> string \<Rightarrow> loop_state" where
  "processStep db rnd st line =
     (case st of (processedCards, unmatchedTexts, k) \<Rightarrow>
        (case parseCardLine db (rnd k) line of
           Some parsedCard \<Rightarrow> (processedCards @ [parsedCard], unmatchedTexts, Suc k)
         | None \<Rightarrow> (processedCards, unmatchedTexts @ [trim line], k)))"

definition processLines :: "db_card list \<Rightarrow> (nat \<Rightarrow> number) \<Rightarrow> string list \<Rightarrow> loop_state" where
  "processLines db rnd lines = foldl (processStep db rnd) ([], [], 0) lines"

datatype api_error = NoTextProvided | NoValidCardEntries

record response_data =
  cards :: "parsed_card list"
  totalLines :: nat
  matched :: nat
  unmatched :: "string list"
  unmatchedLines :: nat

text \<open>\<open>text\<close> is the field of the request body: \<open>None\<close> when it is missing or not a
  string. Both error responses have status 400.\<close>

definition splitLines :: "string \<Rightarrow> string list" where
  "splitLines t = filter (\<lambda>line. trim line \<noteq> []) (split_on (CHR 0x0A) t)"

definition POST :: "db_card list \<Rightarrow> (nat \<Rightarrow> number) \<Rightarrow> string option \<Rightarrow> api_error + response_data" where
  "POST db rnd text =
     (case text of
        None \<Rightarrow> Inl NoTextProvided
      | Some t \<Rightarrow>
          if t = [] then Inl NoTextProvided
          else (let lines = splitLines t in
                if lines = [] then Inl NoValidCardEntries
                else (case processLines db rnd lines of
                        (processedCards, unmatchedTexts, k) \<Rightarrow>
                          Inr \<lparr>cards = processedCards,
                               totalLines = length lines,
                               matched = length processedCards,
                               unmatched = unmatchedTexts,
                               unmatchedLines = length unmatchedTexts\<rparr>)))"

section \<open>The OCR service: confidence of a detection\<close>

definition knownPokemon :: "string list" where
  "knownPokemon =
     [''charizard'', ''pikachu'', ''blastoise'', ''venusaur'', ''alakazam'',
      ''mewtwo'', ''mew'', ''dragonite'', ''gyarados'', ''machamp'', ''gengar'',
      ''articuno'', ''zapdos'', ''moltres'']"

text \<open>An optional string parameter is \<open>None\<close> for \<open>undefined\<close>; it is truthy when it
  is a non-empty string.\<close>

definition truthy :: "string option \<Rightarrow> bool" where
  "truthy s = (case s of None \<Rightarrow> False | Some t \<Rightarrow> t \<noteq> [])"

definition nameIsKnown :: "string \<Rightarrow> bool" where
  "nameIsKnown cardName =
     list_ex (\<lambda>pokemon. str_includes (toLowerCase cardName) pokemon) knownPokemon"

definition calculateConfidence :: "string option \<Rightarrow> string option \<Rightarrow> string option \<Rightarrow> number" where
  "calculateConfidence cardName setName cardNumber =
     (let c0 = fadd 0 (fl (1 / 10));
          c1 = (case cardName of
                  None \<Rightarrow> c0
                | Some n \<Rightarrow>
                    if n = [] then c0
                    else (let c = fadd c0 (fl (4 / 10)) in
                          if nameIsKnown n then fadd c (fl (2 / 10)) else c));
          c2 = (if truthy setName then fadd c1 (fl (3 / 10)) else c1);
          c3 = (case cardNumber of
                  None \<Rightarrow> c2
                | Some m \<Rightarrow>
                    if m = [] then c2
                    else (let c = fadd c2 (fl (2 / 10)) in
                          if str_includes m ''/'' then fadd c (fl (1 / 10)) else c))
      in min c3 1)"

section \<open>The formulas of the specification\<close>

text \<open>The prices of the specification as decimal numbers, computed exactly: the
  multipliers 1.1, 1.0, 0.8, 0.6 and 0.4, the rounding to two decimals with a half
  going up, the market price at condition, and the offer, 0.7 times the market price at
  condition already rounded.\<close>

definition dec_multiplier :: "CardCondition \<Rightarrow> rat" where
  "dec_multiplier c =
     (case c of
        Mint \<Rightarrow> 11 / 10
      | NearMint \<Rightarrow> 1
      | LightlyPlayed \<Rightarrow> 8 / 10
      | ModeratelyPlayed \<Rightarrow> 6 / 10
      | HeavilyPlayed \<Rightarrow> 4 / 10)"

definition dec_round2 :: "rat \<Rightarrow> rat" where
  "dec_round2 x = of_int \<lfloor>x * 100 + 1 / 2\<rfloor> / 100"

definition dec_marketPrice :: "rat \<Rightarrow> CardCondition \<Rightarrow> rat" where
  "dec_marketPrice p c = dec_round2 (p * dec_multiplier c)"

definition dec_offerPrice :: "rat \<Rightarrow> CardCondition \<Rightarrow> rat" where
  "dec_offerPrice p c = dec_round2 (dec_marketPrice p c * (7 / 10))"

text \<open>The same offer in the arithmetic of the route (binary64 products, \<open>round2\<close>): the
  factor 0.7 applied to the condition price after its rounding to two decimals.\<close>

definition spec_offerPrice :: "number \<Rightarrow> CardCondition \<Rightarrow> number" where
  "spec_offerPrice p c = round2 (fmul (round2 (fmul p (conditionMultipliers c))) (fl (7 / 10)))"

text \<open>The sum of the estimate as a function of its five signals, each term added in
  the order of the source and each sum rounded.\<close>

definition ind :: "bool \<Rightarrow> number" where
  "ind b = (if b then 1 else 0)"

definition estimate_sum ::
  "bool \<Rightarrow> bool \<Rightarrow> bool \<Rightarrow> bool \<Rightarrow> bool \<Rightarrow> number" where
  "estimate_sum hasName known hasSet hasNumber hasSlash =
     min (fadd (fadd (fadd (fadd (fadd (fl (1 / 10))
            (fmul (fl (4 / 10)) (ind hasName)))
            (fmul (fl (2 / 10)) (ind known)))
            (fmul (fl (3 / 10)) (ind hasSet)))
            (fmul (fl (2 / 10)) (ind hasNumber)))
            (fmul (fl (1 / 10)) (ind hasSlash))) 1"

definition optString :: "string option \<Rightarrow> string" where
  "optString s = (case s of None \<Rightarrow> [] | Some t \<Rightarrow> t)"

text \<open>The estimate of the specification: the bonus of 0.2 for a name that is a
  member of the list of known names (compared without regard to case).\<close>

definition spec_estimate :: "string option \<Rightarrow> string option \<Rightarrow> string option \<Rightarrow> number" where
  "spec_estimate cardName setName cardNumber =
     estimate_sum (truthy cardName)
       (truthy cardName \<and> toLowerCase (optString cardName) \<in> set knownPokemon)
       (truthy setName) (truthy cardNumber)
       (truthy cardNumber \<and> str_includes (optString cardNumber) ''/'')"

section \<open>Auxiliary definitions for the statements\<close>

text \<open>A card with its \<open>id\<close> field blanked, and a response with the \<open>id\<close> of every
  card blanked.\<close>

definition eraseId :: "parsed_card \<Rightarrow> parsed_card" where
  "eraseId c = c\<lparr>card_id := 0\<rparr>"

definition eraseIds :: "api_error + response_data \<Rightarrow> api_error + response_data" where
  "eraseIds res = (case res of Inl e \<Rightarrow> Inl e | Inr d \<Rightarrow> Inr (d\<lparr>cards := map eraseId (cards d)\<rparr>))"

text \<open>The catalog entry a returned card was built from: the best match of the loop over
  the catalog for the card's original text (the trimmed line).\<close>

definition matchedEntry :: "db_card list \<Rightarrow> parsed_card \<Rightarrow> db_card option" where
  "matchedEntry db c =
     fst (findBest db (toLowerCase (originalText c)) (extractCardNumber (originalText c)))"

text \<open>Two runs of the random number generator: one returns 0.25 at every call, the
  other 0.5.\<close>

definition rnd_quarter :: "nat \<Rightarrow> number" where
  "rnd_quarter k = 1 / 4"

definition rnd_half :: "nat \<Rightarrow> number" where
  "rnd_half k = 1 / 2"

text \<open>The fragment made of an entry's name, a space and its set.\<close>

definition nameAndSet :: "db_card \<Rightarrow> string" where
  "nameAndSet e = db_name e @ '' '' @ db_set e"

section \<open>Substrings\<close>

lemma starts_with_iff: "starts_with s k \<longleftrightarrow> (\<exists>q. s = k @ q)"
  by (induction s k rule: starts_with.induct) auto

lemma str_includes_iff: "str_includes s k \<longleftrightarrow> (\<exists>p q. s = p @ k @ q)"
proof (induction s)
  case Nil
  then show ?case by auto
next
  case (Cons c cs)
  show ?case
  proof
    assume "str_includes (c # cs) k"
    then consider "starts_with (c # cs) k" | "str_includes cs k" by auto
    then show "\<exists>p q. c # cs = p @ k @ q"
    proof cases
      case 1
      then obtain q where "c # cs = k @ q" by (auto simp: starts_with_iff)
      then have "c # cs = [] @ k @ q" by simp
      then show ?thesis by blast
    next
      case 2
      then obtain p q where "cs = p @ k @ q" using Cons.IH by blast
      then have "c # cs = (c # p) @ k @ q" by simp
      then show ?thesis by blast
    qed
  next
    assume "\<exists>p q. c # cs = p @ k @ q"
    then obtain p q where pq: "c # cs = p @ k @ q" by blast
    show "str_includes (c # cs) k"
    proof (cases p)
      case Nil
      with pq have "starts_with (c # cs) k" by (auto simp: starts_with_iff)
      then show ?thesis by simp
    next
      case (Cons a p')
      with pq have "cs = p' @ k @ q" by simp
      then have "str_includes cs k" using Cons.IH by blast
      then show ?thesis by simp
    qed
  qed
qed

lemma str_includes_suffix_part: "str_includes s (a @ b) \<Longrightarrow> str_includes s b"
proof -
  assume "str_includes s (a @ b)"
  then obtain p q where "s = p @ (a @ b) @ q" unfolding str_includes_iff by blast
  then have "s = (p @ a) @ b @ q" by simp
  then show ?thesis unfolding str_includes_iff by blast
qed

lemma near_mint_has_mint: "str_includes s ''near mint'' \<Longrightarrow> str_includes s ''mint''"
  using str_includes_suffix_part [of s "''near ''" "''mint''"] by simp

lemma extractCondition_mint: "str_includes lowerLine ''mint'' \<Longrightarrow> extractCondition lowerLine = Mint"
  by (simp add: extractCondition_def CONDITIONS_def)

section \<open>The loop over the catalog\<close>

lemma foldl_bestStep:
  "(\<forall>e\<in>set db. cardScore l n e \<le> h0) \<longrightarrow> foldl (bestStep l n) (b0, h0) db = (b0, h0)"
  "(\<exists>e\<in>set db. h0 < cardScore l n e) \<longrightarrow>
     (\<exists>i<length db. foldl (bestStep l n) (b0, h0) db = (Some (db ! i), cardScore l n (db ! i))
        \<and> h0 < cardScore l n (db ! i)
        \<and> (\<forall>j<length db. cardScore l n (db ! j) \<le> cardScore l n (db ! i))
        \<and> (\<forall>j<i. cardScore l n (db ! j) < cardScore l n (db ! i)))"
proof (induction db arbitrary: b0 h0)
  case Nil
  { case 1 show ?case by simp }
  { case 2 show ?case by simp }
next
  case (Cons x xs)
  { case 1 show ?case using Cons.IH(1) [of h0 b0] by (auto simp: bestStep_def) }
  { case 2
    show ?case
    proof
      assume ex: "\<exists>e\<in>set (x # xs). h0 < cardScore l n e"
      let ?s = "cardScore l n"
      show "\<exists>i<length (x # xs). foldl (bestStep l n) (b0, h0) (x # xs) = (Some ((x # xs) ! i), ?s ((x # xs) ! i))
        \<and> h0 < ?s ((x # xs) ! i)
        \<and> (\<forall>j<length (x # xs). ?s ((x # xs) ! j) \<le> ?s ((x # xs) ! i))
        \<and> (\<forall>j<i. ?s ((x # xs) ! j) < ?s ((x # xs) ! i))"
      proof (cases "h0 < ?s x")
        case True
        then have step: "foldl (bestStep l n) (b0, h0) (x # xs) = foldl (bestStep l n) (Some x, ?s x) xs"
          by (simp add: bestStep_def)
        show ?thesis
        proof (cases "\<exists>e\<in>set xs. ?s x < ?s e")
          case False
          then have all: "\<forall>e\<in>set xs. ?s e \<le> ?s x" by auto
          then have "foldl (bestStep l n) (Some x, ?s x) xs = (Some x, ?s x)"
            using Cons.IH(1) [of "?s x" "Some x"] by blast
          moreover have "\<forall>j<length (x # xs). ?s ((x # xs) ! j) \<le> ?s x"
            using all by (auto simp: nth_Cons split: nat.splits)
          ultimately show ?thesis using step True
            by (intro exI [of _ 0]) simp
        next
          case ex2: True
          then obtain i where i: "i < length xs"
            "foldl (bestStep l n) (Some x, ?s x) xs = (Some (xs ! i), ?s (xs ! i))"
            "?s x < ?s (xs ! i)"
            "\<forall>j<length xs. ?s (xs ! j) \<le> ?s (xs ! i)"
            "\<forall>j<i. ?s (xs ! j) < ?s (xs ! i)"
            using Cons.IH(2) [of "?s x" "Some x"] by blast
          have "\<forall>j<length (x # xs). ?s ((x # xs) ! j) \<le> ?s (xs ! i)"
            using i(3,4) by (auto simp: nth_Cons split: nat.splits)
          moreover have "\<forall>j<Suc i. ?s ((x # xs) ! j) < ?s (xs ! i)"
            using i(3,5) by (auto simp: nth_Cons split: nat.splits)
          ultimately show ?thesis using step i(1,2,3) True
            by (intro exI [of _ "Suc i"]) simp
        qed
      next
        case False
        then have step: "foldl (bestStep l n) (b0, h0) (x # xs) = foldl (bestStep l n) (b0, h0) xs"
          by (simp add: bestStep_def)
        from False ex have "\<exists>e\<in>set xs. h0 < ?s e" by auto
        then obtain i where i: "i < length xs"
            "foldl (bestStep l n) (b0, h0) xs = (Some (xs ! i), ?s (xs ! i))"
            "h0 < ?s (xs ! i)"
            "\<forall>j<length xs. ?s (xs ! j) \<le> ?s (xs ! i)"
            "\<forall>j<i. ?s (xs ! j) < ?s (xs ! i)"
          using Cons.IH(2) [of h0 b0] by blast
        have "\<forall>j<length (x # xs). ?s ((x # xs) ! j) \<le> ?s (xs ! i)"
          using i(3,4) False by (auto simp: nth_Cons split: nat.splits)
        moreover have "\<forall>j<Suc i. ?s ((x # xs) ! j) < ?s (xs ! i)"
          using i(3,5) False by (auto simp: nth_Cons split: nat.splits)
        ultimately show ?thesis using step i(1,2,3)
          by (intro exI [of _ "Suc i"]) simp
      qed
    qed }
qed

lemma findBest_none:
  "(\<forall>e\<in>set db. cardScore l n e < 2) \<Longrightarrow>
     (case findBest db l n of (b, h) \<Rightarrow> b = None \<or> h < 2)"
proof (cases "\<exists>e\<in>set db. 0 < cardScore l n e")
  case False
  then have "\<forall>e\<in>set db. cardScore l n e \<le> 0" by auto
  then have "findBest db l n = (None, 0)"
    unfolding findBest_def using foldl_bestStep(1) [of db l n 0 None] by blast
  then show ?thesis by simp
next
  case True
  assume low: "\<forall>e\<in>set db. cardScore l n e < 2"
  from True obtain i where i: "i < length db"
    "findBest db l n = (Some (db ! i), cardScore l n (db ! i))"
    unfolding findBest_def using foldl_bestStep(2) [of db 0 l n None] by blast
  from i(1) low have "cardScore l n (db ! i) < 2" by simp
  with i(2) show ?thesis by simp
qed

lemma findBest_some:
  assumes "\<exists>e\<in>set db. 2 \<le> cardScore l n e"
  shows "\<exists>i<length db. findBest db l n = (Some (db ! i), cardScore l n (db ! i))
        \<and> 2 \<le> cardScore l n (db ! i)
        \<and> (\<forall>j<length db. cardScore l n (db ! j) \<le> cardScore l n (db ! i))
        \<and> (\<forall>j<i. cardScore l n (db ! j) < cardScore l n (db ! i))"
proof -
  from assms obtain e where e: "e \<in> set db" "2 \<le> cardScore l n e" by blast
  then have "\<exists>e\<in>set db. 0 < cardScore l n e" by force
  then obtain i where i: "i < length db"
    "findBest db l n = (Some (db ! i), cardScore l n (db ! i))"
    "\<forall>j<length db. cardScore l n (db ! j) \<le> cardScore l n (db ! i)"
    "\<forall>j<i. cardScore l n (db ! j) < cardScore l n (db ! i)"
    unfolding findBest_def using foldl_bestStep(2) [of db 0 l n None] by blast
  from e(1) obtain j where "j < length db" "db ! j = e" by (auto simp: in_set_conv_nth)
  with i(3) e(2) have "2 \<le> cardScore l n (db ! i)" by force
  with i show ?thesis by blast
qed

lemma findBest_member:
  "findBest db l n = (Some b, h) \<Longrightarrow> b \<in> set db \<and> h = cardScore l n b"
proof (cases "\<exists>e\<in>set db. 0 < cardScore l n e")
  case False
  then have "\<forall>e\<in>set db. cardScore l n e \<le> 0" by auto
  then have "findBest db l n = (None, 0)"
    unfolding findBest_def using foldl_bestStep(1) [of db l n 0 None] by blast
  moreover assume "findBest db l n = (Some b, h)"
  ultimately show ?thesis by simp
next
  case True
  assume a: "findBest db l n = (Some b, h)"
  from True obtain i where i: "i < length db"
    "findBest db l n = (Some (db ! i), cardScore l n (db ! i))"
    unfolding findBest_def using foldl_bestStep(2) [of db 0 l n None] by blast
  with a show ?thesis by auto
qed

section \<open>The line parser\<close>

lemma parseCardLine_Some:
  assumes "trim line \<noteq> []"
    and "findBest db (toLowerCase (trim line)) (extractCardNumber (trim line)) = (Some b, h)"
    and "2 \<le> h"
  shows "parseCardLine db r line =
     Some (buildCard b (extractCondition (toLowerCase (trim line))) h r (trim line))"
  using assms by (simp add: parseCardLine_def Let_def)

lemma parseCardLine_SomeD:
  assumes "parseCardLine db r line = Some c"
  shows "\<exists>b h. trim line \<noteq> [] \<and> 2 \<le> h
      \<and> findBest db (toLowerCase (trim line)) (extractCardNumber (trim line)) = (Some b, h)
      \<and> c = buildCard b (extractCondition (toLowerCase (trim line))) h r (trim line)"
  using assms
  by (auto simp: parseCardLine_def Let_def split: if_splits prod.splits option.splits)

lemma parseCardLine_None_any:
  "parseCardLine db r line = None \<Longrightarrow> parseCardLine db r' line = None"
  by (auto simp: parseCardLine_def Let_def split: if_splits prod.splits option.splits)

lemma parseCardLine_matches:
  "lineMatches db line \<longleftrightarrow> parseCardLine db r line \<noteq> None"
proof -
  have "parseCardLine db 0 line = None \<longleftrightarrow> parseCardLine db r line = None"
    by (rule iffI) (erule parseCardLine_None_any)+
  then show ?thesis by (simp add: lineMatches_def)
qed

lemma buildCard_fields:
  "card_name (buildCard b c h r t) = db_name b"
  "card_set (buildCard b c h r t) = db_set b"
  "card_number (buildCard b c h r t) = db_number b"
  "condition (buildCard b c h r t) = c"
  "card_id (buildCard b c h r t) = fadd (db_id b) r"
  "marketPrice (buildCard b c h r t) = round2 (fmul (db_marketPrice b) (conditionMultipliers c))"
  "ourOffer (buildCard b c h r t) =
     round2 (fmul (fmul (db_marketPrice b) (conditionMultipliers c)) (fl (7 / 10)))"
  "confidence (buildCard b c h r t) = fdiv (of_int h) 5"
  "originalText (buildCard b c h r t) = t"
  by (simp_all add: buildCard_def Let_def round2_def)

lemma buildCard_erase_id:
  "buildCard b c h r t \<lparr>card_id := 0\<rparr> = buildCard b c h r' t \<lparr>card_id := 0\<rparr>"
  by (simp add: buildCard_def Let_def)

lemma parseCardLine_erase_id:
  "map_option (\<lambda>c. c\<lparr>card_id := 0\<rparr>) (parseCardLine db r line) =
   map_option (\<lambda>c. c\<lparr>card_id := 0\<rparr>) (parseCardLine db r' line)"
  by (auto simp: parseCardLine_def Let_def buildCard_erase_id [of _ _ _ r _ r']
      split: if_splits prod.splits option.splits)

lemma parseCardLine_originalText:
  "parseCardLine db r line = Some c \<Longrightarrow> originalText c = trim line"
  by (auto dest!: parseCardLine_SomeD simp: buildCard_fields)

section \<open>The loop over the lines\<close>

lemma processStep_unfold:
  "processStep db rnd (cs, us, k) l =
     (case parseCardLine db (rnd k) l of
        Some c \<Rightarrow> (cs @ [c], us, Suc k)
      | None \<Rightarrow> (cs, us @ [trim l], k))"
  by (simp add: processStep_def)

lemma foldl_processStep_texts:
  "foldl (processStep db rnd) (cs, us, k) ls = (cs', us', k') \<Longrightarrow>
     map originalText cs' = map originalText cs @ map trim (filter (lineMatches db) ls)
   \<and> us' = us @ map trim (filter (\<lambda>l. \<not> lineMatches db l) ls)"
proof (induction ls arbitrary: cs us k)
  case Nil
  then show ?case by simp
next
  case (Cons l ls)
  show ?case
  proof (cases "parseCardLine db (rnd k) l")
    case None
    then have nm: "\<not> lineMatches db l" by (simp add: parseCardLine_matches [of db l "rnd k"])
    from None Cons.prems have "foldl (processStep db rnd) (cs, us @ [trim l], k) ls = (cs', us', k')"
      by (simp add: processStep_unfold)
    from Cons.IH [OF this] nm show ?thesis by simp
  next
    case (Some c)
    then have m: "lineMatches db l" by (simp add: parseCardLine_matches [of db l "rnd k"])
    from Some have ot: "originalText c = trim l" by (rule parseCardLine_originalText)
    from Some Cons.prems have "foldl (processStep db rnd) (cs @ [c], us, Suc k) ls = (cs', us', k')"
      by (simp add: processStep_unfold)
    from Cons.IH [OF this] m ot show ?thesis by simp
  qed
qed

lemma foldl_processStep_erase:
  "map eraseId cs1 = map eraseId cs2 \<Longrightarrow>
   foldl (processStep db rnd1) (cs1, us, k1) ls = (cs1', us1', k1') \<Longrightarrow>
   foldl (processStep db rnd2) (cs2, us, k2) ls = (cs2', us2', k2') \<Longrightarrow>
   map eraseId cs1' = map eraseId cs2' \<and> us1' = us2'"
proof (induction ls arbitrary: cs1 cs2 us k1 k2)
  case Nil
  then show ?case by simp
next
  case (Cons l ls)
  have er: "map_option eraseId (parseCardLine db (rnd1 k1) l) = map_option eraseId (parseCardLine db (rnd2 k2) l)"
    using parseCardLine_erase_id [of db "rnd1 k1" l "rnd2 k2"] by (simp add: eraseId_def [abs_def])
  show ?case
  proof (cases "parseCardLine db (rnd1 k1) l")
    case None
    with er have None2: "parseCardLine db (rnd2 k2) l = None" by simp
    from None Cons.prems(2) have a: "foldl (processStep db rnd1) (cs1, us @ [trim l], k1) ls = (cs1', us1', k1')"
      by (simp add: processStep_unfold)
    from None2 Cons.prems(3) have b: "foldl (processStep db rnd2) (cs2, us @ [trim l], k2) ls = (cs2', us2', k2')"
      by (simp add: processStep_unfold)
    from Cons.IH [OF Cons.prems(1) a b] show ?thesis .
  next
    case (Some c1)
    with er obtain c2 where Some2: "parseCardLine db (rnd2 k2) l = Some c2" and e: "eraseId c1 = eraseId c2"
      by (cases "parseCardLine db (rnd2 k2) l") auto
    from Some Cons.prems(2) have a: "foldl (processStep db rnd1) (cs1 @ [c1], us, Suc k1) ls = (cs1', us1', k1')"
      by (simp add: processStep_unfold)
    from Some2 Cons.prems(3) have b: "foldl (processStep db rnd2) (cs2 @ [c2], us, Suc k2) ls = (cs2', us2', k2')"
      by (simp add: processStep_unfold)
    from Cons.prems(1) e have "map eraseId (cs1 @ [c1]) = map eraseId (cs2 @ [c2])" by simp
    from Cons.IH [OF this a b] show ?thesis .
  qed
qed

section \<open>The rounding to binary64\<close>

text \<open>The exponent \<open>ilog2\<close> brackets its argument between two powers of two, and \<open>fl\<close>
  keeps every value it returns: rounding twice is rounding once.\<close>

lemma pow2_powi: "pow2 e = 2 powi e"
  by (simp add: pow2_def power_int_def power_one_over [symmetric] inverse_eq_divide)

lemma pow2_pos: "0 < pow2 e"
  by (simp add: pow2_powi)

lemma pow2_add: "pow2 (a + b) = pow2 a * pow2 b"
  by (simp add: pow2_powi power_int_add)

lemma pow2_mono: "a \<le> b \<Longrightarrow> pow2 a \<le> pow2 b"
  by (simp add: pow2_powi power_int_increasing)

lemma pow2_nat: "pow2 (int n) = 2 ^ n"
  by (simp add: pow2_def)

lemma pow2_of_int: "0 \<le> k \<Longrightarrow> pow2 k = of_int (2 ^ nat k)"
  by (simp add: pow2_def)

lemma ilog2_bounds:
  assumes "0 < x"
  shows "pow2 (ilog2 x) \<le> x" and "x < pow2 (ilog2 x + 1)"
proof -
  have "pow2 (ilog2 x) \<le> x \<and> x < pow2 (ilog2 x + 1)"
  proof (cases "1 \<le> x")
    case True
    define n where "n = \<lfloor>x\<rfloor>"
    have n1: "1 \<le> n" using True unfolding n_def by simp
    then have pos: "0 < n" by simp
    from bitlen_bounds [OF pos] have lo: "2 ^ nat (bitlen n - 1) \<le> n" and hi: "n < 2 ^ nat (bitlen n)"
      by blast+
    have b1: "1 \<le> bitlen n" using pos bitlen_eq_zero_iff [of n] bitlen_nonneg [of n] by linarith
    have il: "ilog2 x = bitlen n - 1" using True by (simp add: ilog2_def n_def)
    have "pow2 (bitlen n - 1) = of_int (2 ^ nat (bitlen n - 1))"
      using b1 by (simp add: pow2_of_int)
    also have "\<dots> \<le> of_int n" using lo by (simp only: of_int_le_iff)
    also have "\<dots> \<le> x" unfolding n_def by simp
    finally have A: "pow2 (ilog2 x) \<le> x" unfolding il .
    from hi have "n + 1 \<le> 2 ^ nat (bitlen n)" by simp
    then have "(of_int (n + 1) :: rat) \<le> 2 ^ nat (bitlen n)"
      by (simp only: of_int_le_numeral_power_cancel_iff)
    moreover have "x < of_int (n + 1)" unfolding n_def by linarith
    moreover have "pow2 (bitlen n) = 2 ^ nat (bitlen n)"
      using b1 by (simp add: pow2_def)
    ultimately have "x < pow2 (bitlen n)" by linarith
    then have B: "x < pow2 (ilog2 x + 1)" unfolding il by simp
    from A B show ?thesis by blast
  next
    case False
    define y where "y = 1 / x"
    define n where "n = \<lceil>y\<rceil>"
    define c where "c = bitlen (n - 1)"
    from False assms have y1: "1 < y" unfolding y_def by simp
    then have n2: "2 \<le> n" unfolding n_def by (simp add: le_ceiling_iff)
    then have pos: "0 < n - 1" by simp
    from bitlen_bounds [OF pos] have lo: "2 ^ nat (c - 1) \<le> n - 1" and hi: "n - 1 < 2 ^ nat c"
      unfolding c_def by blast+
    have c1: "1 \<le> c" using pos bitlen_eq_zero_iff [of "n - 1"] bitlen_nonneg [of "n - 1"]
      unfolding c_def by linarith
    have il: "ilog2 x = - c" using False by (simp add: ilog2_def n_def y_def c_def)
    have yn: "y \<le> of_int n" unfolding n_def by simp
    have ny: "of_int (n - 1) < y" unfolding n_def by linarith
    from hi have "n \<le> 2 ^ nat c" by simp
    then have "(of_int n :: rat) \<le> 2 ^ nat c" by simp
    with yn have "y \<le> 2 ^ nat c" by linarith
    then have "1 / x \<le> 2 ^ nat c" unfolding y_def .
    then have "1 \<le> 2 ^ nat c * x" using assms by (simp add: field_simps)
    then have "1 / 2 ^ nat c \<le> x" by (simp add: field_simps)
    moreover have "pow2 (- c) = 1 / 2 ^ nat c" using c1 by (simp add: pow2_def)
    ultimately have A: "pow2 (ilog2 x) \<le> x" unfolding il by simp
    from lo have "(2 ^ nat (c - 1) :: rat) \<le> of_int (n - 1)"
      by (simp only: numeral_power_le_of_int_cancel_iff)
    with ny have "2 ^ nat (c - 1) < y" by linarith
    then have "2 ^ nat (c - 1) < 1 / x" unfolding y_def .
    then have "2 ^ nat (c - 1) * x < 1" using assms by (simp add: field_simps)
    then have "x < 1 / 2 ^ nat (c - 1)" by (simp add: field_simps)
    moreover have "pow2 (- c + 1) = 1 / 2 ^ nat (c - 1)"
    proof (cases "c = 1")
      case True
      then show ?thesis by (simp add: pow2_def)
    next
      case False
      with c1 have "- c + 1 < 0" by simp
      then show ?thesis by (simp add: pow2_def)
    qed
    ultimately have B: "x < pow2 (ilog2 x + 1)" unfolding il by simp
    from A B show ?thesis by blast
  qed
  then show "pow2 (ilog2 x) \<le> x" and "x < pow2 (ilog2 x + 1)" by blast+
qed

lemma ilog2_unique:
  assumes "0 < x" "pow2 k \<le> x" "x < pow2 (k + 1)"
  shows "ilog2 x = k"
proof (rule ccontr)
  assume ne: "ilog2 x \<noteq> k"
  show False
  proof (cases "ilog2 x < k")
    case True
    then have "pow2 (ilog2 x + 1) \<le> pow2 k" by (intro pow2_mono) simp
    with ilog2_bounds(2) [OF assms(1)] assms(2) show False by simp
  next
    case False
    with ne have "k + 1 \<le> ilog2 x" by simp
    then have "pow2 (k + 1) \<le> pow2 (ilog2 x)" by (rule pow2_mono)
    with ilog2_bounds(1) [OF assms(1)] assms(3) show False by simp
  qed
qed

lemma round_even_of_int: "round_even (of_int n) = n"
  by (simp add: round_even_def)

lemma round_even_cases: "round_even y = \<lfloor>y\<rfloor> \<or> (round_even y = \<lfloor>y\<rfloor> + 1 \<and> of_int \<lfloor>y\<rfloor> < y)"
  by (auto simp: round_even_def Let_def)

lemma round_even_le:
  assumes "y \<le> of_int hi"
  shows "round_even y \<le> hi"
proof -
  from assms have f: "\<lfloor>y\<rfloor> \<le> hi" by (simp add: floor_le_iff)
  from round_even_cases [of y] show ?thesis
  proof
    assume "round_even y = \<lfloor>y\<rfloor>"
    with f show ?thesis by simp
  next
    assume a: "round_even y = \<lfloor>y\<rfloor> + 1 \<and> of_int \<lfloor>y\<rfloor> < y"
    with assms have "(of_int \<lfloor>y\<rfloor> :: rat) < of_int hi" by linarith
    then have "\<lfloor>y\<rfloor> < hi" by (simp only: of_int_less_iff)
    with a show ?thesis by simp
  qed
qed

lemma round_even_nonneg:
  assumes "0 \<le> y"
  shows "0 \<le> round_even y"
proof -
  from assms have "0 \<le> \<lfloor>y\<rfloor>" by simp
  with round_even_cases [of y] show ?thesis by auto
qed

lemma fl_minus: "fl (- x) = - fl x"
  by (simp add: fl_def Let_def sgn_minus)

lemma fl_of_mantissa:
  assumes "0 < m" "m \<le> 2 ^ 53" "- 1074 \<le> e"
  shows "fl (of_int m * pow2 e) = of_int m * pow2 e"
proof -
  define x :: rat where "x = of_int m * pow2 e"
  define k where "k = bitlen m - 1"
  have xpos: "0 < x" unfolding x_def using assms(1) pow2_pos [of e] by simp
  from bitlen_bounds [OF assms(1)] have lo: "2 ^ nat k \<le> m" and hi: "m < 2 ^ nat (k + 1)"
    unfolding k_def by simp_all
  have k0: "0 \<le> k" using assms(1) bitlen_eq_zero_iff [of m] bitlen_nonneg [of m]
    unfolding k_def by linarith
  have k53: "k \<le> 53"
  proof (rule ccontr)
    assume "\<not> k \<le> 53"
    then have "54 \<le> nat k" by simp
    then have "(2::int) ^ 54 \<le> 2 ^ nat k" by (intro power_increasing) simp_all
    with lo assms(2) show False by simp
  qed
  have "pow2 k \<le> of_int m"
    using lo k0 by (simp add: pow2_def)
  then have "pow2 k * pow2 e \<le> of_int m * pow2 e"
    using pow2_pos [of e] by (simp only: mult_le_cancel_right_pos)
  then have A: "pow2 (k + e) \<le> x" unfolding x_def pow2_add .
  have "of_int m < pow2 (k + 1)"
    using hi k0 by (simp add: pow2_def)
  then have "of_int m * pow2 e < pow2 (k + 1) * pow2 e"
    using pow2_pos [of e] by (simp only: mult_less_cancel_right_pos)
  then have B: "x < pow2 (k + e + 1)" unfolding x_def pow2_add [symmetric] by (simp add: add.commute add.left_commute)
  from ilog2_unique [OF xpos A B] have il: "ilog2 x = k + e" .
  define E where "E = max (k + e - 52) (- 1074)"
  have flx: "fl x = of_int (round_even (x / pow2 E)) * pow2 E"
    using xpos il by (simp add: fl_def Let_def E_def)
  show ?thesis
  proof (cases "k = 53")
    case True
    with lo assms(2) have m: "m = 2 ^ 53" by simp
    from True assms(3) have E: "E = e + 1" unfolding E_def by simp
    have p: "pow2 (e + 1) = pow2 e * 2" unfolding pow2_add by (simp add: pow2_def)
    have "x / pow2 E = of_int (2 ^ 52)"
      unfolding x_def E p m using pow2_pos [of e] by simp
    then have "round_even (x / pow2 E) = 2 ^ 52" by (simp only: round_even_of_int)
    then have "fl x = of_int m * pow2 e" unfolding flx E p m by simp
    then show ?thesis unfolding x_def .
  next
    case False
    with k53 have "k \<le> 52" by simp
    with assms(3) have Ee: "E \<le> e" unfolding E_def by simp
    define d where "d = nat (e - E)"
    from Ee have "e = E + int d" unfolding d_def by simp
    then have p: "pow2 e = pow2 E * 2 ^ d" by (simp add: pow2_add pow2_nat)
    have "x / pow2 E = of_int (m * 2 ^ d)"
      unfolding x_def p using pow2_pos [of E] by simp
    then have "round_even (x / pow2 E) = m * 2 ^ d" by (simp only: round_even_of_int)
    then have "fl x = of_int m * pow2 e" unfolding flx p by simp
    then show ?thesis unfolding x_def .
  qed
qed

lemma fl_pos_form:
  assumes "0 < x"
  shows "\<exists>m e. 0 \<le> m \<and> m \<le> 2 ^ 53 \<and> - 1074 \<le> e \<and> fl x = of_int m * pow2 e"
proof -
  define E where "E = max (ilog2 x - 52) (- 1074)"
  define m where "m = round_even (x / pow2 E)"
  have flx: "fl x = of_int m * pow2 E"
    using assms by (simp add: fl_def Let_def E_def m_def)
  have "ilog2 x + 1 \<le> E + 53" unfolding E_def by simp
  then have "pow2 (ilog2 x + 1) \<le> pow2 (E + 53)" by (rule pow2_mono)
  with ilog2_bounds(2) [OF assms] have "x < pow2 (E + 53)" by simp
  also have "pow2 (E + 53) = pow2 E * 2 ^ 53" unfolding pow2_add by (simp add: pow2_def)
  finally have "x / pow2 E < 2 ^ 53" using pow2_pos [of E] by (simp add: field_simps)
  then have "x / pow2 E \<le> of_int (2 ^ 53)" by simp
  then have "m \<le> 2 ^ 53" unfolding m_def by (rule round_even_le)
  moreover have "0 \<le> m" unfolding m_def using assms pow2_pos [of E]
    by (intro round_even_nonneg) simp
  moreover have "- 1074 \<le> E" unfolding E_def by simp
  ultimately show ?thesis using flx by blast
qed

lemma fl_idem_pos:
  assumes "0 < x"
  shows "fl (fl x) = fl x"
proof -
  from fl_pos_form [OF assms] obtain m e where me: "0 \<le> m" "m \<le> 2 ^ 53" "- 1074 \<le> e"
    "fl x = of_int m * pow2 e" by blast
  show ?thesis
  proof (cases "m = 0")
    case True
    with me(4) show ?thesis by (simp add: fl_def)
  next
    case False
    with me(1) have "0 < m" by simp
    from fl_of_mantissa [OF this me(2,3)] me(4) show ?thesis by simp
  qed
qed

lemma fl_idem: "fl (fl x) = fl x"
proof -
  consider "x = 0" | "0 < x" | "x < 0" by linarith
  then show ?thesis
  proof cases
    case 1
    then show ?thesis by (simp add: fl_def)
  next
    case 2
    then show ?thesis by (rule fl_idem_pos)
  next
    case 3
    then have "0 < - x" by simp
    from fl_idem_pos [OF this] show ?thesis by (simp add: fl_minus)
  qed
qed

lemma fl_nonneg: "0 \<le> x \<Longrightarrow> 0 \<le> fl x"
proof (cases "x = 0")
  case True
  then show ?thesis by (simp add: fl_def)
next
  case False
  assume "0 \<le> x"
  with False have "0 < x" by simp
  from fl_pos_form [OF this] obtain m e where "0 \<le> m" "fl x = of_int m * pow2 e" by blast
  then show ?thesis using pow2_pos [of e] by simp
qed

section \<open>Evaluating the arithmetic\<close>

text \<open>Rewrite rules that let the simplifier compute \<open>fl\<close> on numerals, and the values of
  the literals, products, sums and quotients the statements below need.\<close>

lemma bitlen_numeral_simps:
  "bitlen 0 = 0"
  "bitlen 1 = 1"
  "bitlen (numeral (num.Bit0 n)) = bitlen (numeral n) + 1"
  "bitlen (numeral (num.Bit1 n)) = bitlen (numeral n) + 1"
  "bitlen (numeral num.One) = 1"
proof -
  show "bitlen 0 = 0" by simp
  show "bitlen 1 = 1" by (subst compute_bitlen) simp
  show "bitlen (numeral (num.Bit0 n)) = bitlen (numeral n) + 1" by (subst compute_bitlen) simp
  show "bitlen (numeral (num.Bit1 n)) = bitlen (numeral n) + 1" by (subst compute_bitlen) simp
  show "bitlen (numeral num.One) = 1" by (subst compute_bitlen) simp
qed

lemma floor_rat_numeral: "\<lfloor>numeral a / numeral b :: rat\<rfloor> = numeral a div numeral b"
  using floor_divide_of_int_eq [of "numeral a" "numeral b", where ?'a = rat] by simp

lemma ceiling_rat_numeral: "\<lceil>numeral a / numeral b :: rat\<rceil> = - (- numeral a div numeral b)"
  using ceiling_divide_eq_div [of "numeral a" "numeral b", where ?'a = rat] by simp

lemmas fl_eval = fl_def ilog2_def pow2_def round_even_def bitlen_numeral_simps
  floor_rat_numeral ceiling_rat_numeral

lemma fl_zero: "fl 0 = 0"
  by (simp add: fl_def)

lemma fl_fadd: "fl (fadd a b) = fadd a b"
  by (simp add: fadd_def fl_idem)

lemma fadd_nonneg: "0 \<le> a \<Longrightarrow> 0 \<le> b \<Longrightarrow> 0 \<le> fadd a b"
  by (simp add: fadd_def fl_nonneg)

lemma fmul_nonneg: "0 \<le> a \<Longrightarrow> 0 \<le> b \<Longrightarrow> 0 \<le> fmul a b"
  by (simp add: fmul_def fl_nonneg)

lemma literals:
  "fl (11 / 10) = 2476979795053773 / 2251799813685248"
  "fl (7 / 10) = 3152519739159347 / 4503599627370496"
  by (simp_all add: fl_eval)

lemma tenths:
  "fl (1 / 10) = 3602879701896397 / 36028797018963968"
  "fl (2 / 10) = 3602879701896397 / 18014398509481984"
  "fl (3 / 10) = 5404319552844595 / 18014398509481984"
  "fl (4 / 10) = 3602879701896397 / 9007199254740992"
  by (simp_all add: fl_eval)

lemma multipliers:
  "fl (8 / 10) = 3602879701896397 / 4503599627370496"
  "fl (6 / 10) = 5404319552844595 / 9007199254740992"
  by (simp_all add: fl_eval)

lemma mint_price_450:
  "round2 (fmul 450 (fl (11 / 10))) = 495"
  "round2 (fmul (fmul 450 (fl (11 / 10))) (fl (7 / 10))) = 693 / 2"
  unfolding literals by (simp_all add: round2_def fmul_def fdiv_def Math_round_def fl_eval)

lemma charizard_ids:
  "fadd 1 (1 / 4) = 5 / 4"
  "fadd 1 (1 / 2) = 3 / 2"
  by (simp_all add: fadd_def fl_eval)

lemma confidence_9: "fdiv 9 5 = 8106479329266893 / 4503599627370496"
  by (simp add: fdiv_def fl_eval)

lemma confidence_sums:
  "fadd (3602879701896397 / 36028797018963968) (3602879701896397 / 9007199254740992) = 1 / 2"
  "fadd (1 / 2) (3602879701896397 / 18014398509481984) = 3152519739159347 / 4503599627370496"
  "fadd (3152519739159347 / 4503599627370496) (5404319552844595 / 18014398509481984) = 1"
  "fadd 1 (3602879701896397 / 18014398509481984) = 5404319552844595 / 4503599627370496"
  "fadd (5404319552844595 / 4503599627370496) (3602879701896397 / 36028797018963968)
     = 5854679515581645 / 4503599627370496"
  by (simp_all add: fadd_def fl_eval)

text \<open>On the six prices of the current catalog the offer computed from the rounded
  condition price and the offer the route computes from the unrounded one are equal,
  for each of the five conditions.\<close>

lemma offers_agree_450:
  "spec_offerPrice 450 c = round2 (fmul (fmul 450 (conditionMultipliers c)) (fl (7 / 10)))"
  unfolding spec_offerPrice_def conditionMultipliers_def literals multipliers tenths
  by (cases c) (simp_all add: round2_def fmul_def fdiv_def Math_round_def fl_eval)

lemma offers_agree_85:
  "spec_offerPrice 85 c = round2 (fmul (fmul 85 (conditionMultipliers c)) (fl (7 / 10)))"
  unfolding spec_offerPrice_def conditionMultipliers_def literals multipliers tenths
  by (cases c) (simp_all add: round2_def fmul_def fdiv_def Math_round_def fl_eval)

lemma offers_agree_180:
  "spec_offerPrice 180 c = round2 (fmul (fmul 180 (conditionMultipliers c)) (fl (7 / 10)))"
  unfolding spec_offerPrice_def conditionMultipliers_def literals multipliers tenths
  by (cases c) (simp_all add: round2_def fmul_def fdiv_def Math_round_def fl_eval)

lemma offers_agree_120:
  "spec_offerPrice 120 c = round2 (fmul (fmul 120 (conditionMultipliers c)) (fl (7 / 10)))"
  unfolding spec_offerPrice_def conditionMultipliers_def literals multipliers tenths
  by (cases c) (simp_all add: round2_def fmul_def fdiv_def Math_round_def fl_eval)

lemma offers_agree_35:
  "spec_offerPrice 35 c = round2 (fmul (fmul 35 (conditionMultipliers c)) (fl (7 / 10)))"
  unfolding spec_offerPrice_def conditionMultipliers_def literals multipliers tenths
  by (cases c) (simp_all add: round2_def fmul_def fdiv_def Math_round_def fl_eval)

lemma offers_agree_90:
  "spec_offerPrice 90 c = round2 (fmul (fmul 90 (conditionMultipliers c)) (fl (7 / 10)))"
  unfolding spec_offerPrice_def conditionMultipliers_def literals multipliers tenths
  by (cases c) (simp_all add: round2_def fmul_def fdiv_def Math_round_def fl_eval)

lemma current_catalog_offers_agree:
  assumes "e \<in> set MOCK_CARD_DATABASE"
  shows "spec_offerPrice (db_marketPrice e) c
       = round2 (fmul (fmul (db_marketPrice e) (conditionMultipliers c)) (fl (7 / 10)))"
proof -
  from assms have "db_marketPrice e \<in> {450, 85, 180, 120, 35, 90}"
    by (auto simp: MOCK_CARD_DATABASE_def)
  then show ?thesis
    using offers_agree_450 offers_agree_85 offers_agree_180 offers_agree_120
      offers_agree_35 offers_agree_90
    by auto
qed

text \<open>On the same prices the market price and the offer the route reports are the
  binary64 values nearest to the decimal prices of the specification.\<close>

lemma decimal_prices_450:
  "round2 (fmul 450 (conditionMultipliers c)) = fl (dec_marketPrice 450 c)"
  "round2 (fmul (fmul 450 (conditionMultipliers c)) (fl (7 / 10))) = fl (dec_offerPrice 450 c)"
  unfolding conditionMultipliers_def literals multipliers tenths
    dec_offerPrice_def dec_marketPrice_def dec_round2_def dec_multiplier_def
  by (cases c; simp add: round2_def fmul_def fdiv_def Math_round_def fl_eval)+

lemma decimal_prices_85:
  "round2 (fmul 85 (conditionMultipliers c)) = fl (dec_marketPrice 85 c)"
  "round2 (fmul (fmul 85 (conditionMultipliers c)) (fl (7 / 10))) = fl (dec_offerPrice 85 c)"
  unfolding conditionMultipliers_def literals multipliers tenths
    dec_offerPrice_def dec_marketPrice_def dec_round2_def dec_multiplier_def
  by (cases c; simp add: round2_def fmul_def fdiv_def Math_round_def fl_eval)+

lemma decimal_prices_180:
  "round2 (fmul 180 (conditionMultipliers c)) = fl (dec_marketPrice 180 c)"
  "round2 (fmul (fmul 180 (conditionMultipliers c)) (fl (7 / 10))) = fl (dec_offerPrice 180 c)"
  unfolding conditionMultipliers_def literals multipliers tenths
    dec_offerPrice_def dec_marketPrice_def dec_round2_def dec_multiplier_def
  by (cases c; simp add: round2_def fmul_def fdiv_def Math_round_def fl_eval)+

lemma decimal_prices_120:
  "round2 (fmul 120 (conditionMultipliers c)) = fl (dec_marketPrice 120 c)"
  "round2 (fmul (fmul 120 (conditionMultipliers c)) (fl (7 / 10))) = fl (dec_offerPrice 120 c)"
  unfolding conditionMultipliers_def literals multipliers tenths
    dec_offerPrice_def dec_marketPrice_def dec_round2_def dec_multiplier_def
  by (cases c; simp add: round2_def fmul_def fdiv_def Math_round_def fl_eval)+

lemma decimal_prices_35:
  "round2 (fmul 35 (conditionMultipliers c)) = fl (dec_marketPrice 35 c)"
  "round2 (fmul (fmul 35 (conditionMultipliers c)) (fl (7 / 10))) = fl (dec_offerPrice 35 c)"
  unfolding conditionMultipliers_def literals multipliers tenths
    dec_offerPrice_def dec_marketPrice_def dec_round2_def dec_multiplier_def
  by (cases c; simp add: round2_def fmul_def fdiv_def Math_round_def fl_eval)+

lemma decimal_prices_90:
  "round2 (fmul 90 (conditionMultipliers c)) = fl (dec_marketPrice 90 c)"
  "round2 (fmul (fmul 90 (conditionMultipliers c)) (fl (7 / 10))) = fl (dec_offerPrice 90 c)"
  unfolding conditionMultipliers_def literals multipliers tenths
    dec_offerPrice_def dec_marketPrice_def dec_round2_def dec_multiplier_def
  by (cases c; simp add: round2_def fmul_def fdiv_def Math_round_def fl_eval)+

lemma current_catalog_decimal_prices:
  assumes "e \<in> set MOCK_CARD_DATABASE"
  shows "round2 (fmul (db_marketPrice e) (conditionMultipliers c))
           = fl (dec_marketPrice (db_marketPrice e) c)
       \<and> round2 (fmul (fmul (db_marketPrice e) (conditionMultipliers c)) (fl (7 / 10)))
           = fl (dec_offerPrice (db_marketPrice e) c)"
proof -
  from assms have "db_marketPrice e \<in> {450, 85, 180, 120, 35, 90}"
    by (auto simp: MOCK_CARD_DATABASE_def)
  then show ?thesis
    using decimal_prices_450 decimal_prices_85 decimal_prices_180 decimal_prices_120
      decimal_prices_35 decimal_prices_90
    by auto
qed

lemma charizard_mint_decimal:
  "db_marketPrice (MOCK_CARD_DATABASE ! 0) = 450"
  "dec_marketPrice 450 Mint = 495"
  "dec_offerPrice 450 Mint = 693 / 2"
  "fl 495 = 495"
  "fl (693 / 2) = 693 / 2"
  by (simp_all add: MOCK_CARD_DATABASE_def dec_offerPrice_def dec_marketPrice_def dec_round2_def
      dec_multiplier_def fl_eval)

section \<open>The parser on lines of the catalog\<close>

lemma lineMatches_code [code]:
  "lineMatches db line \<longleftrightarrow>
     trim line \<noteq> [] \<and>
     (case findBest db (toLowerCase (trim line)) (extractCardNumber (trim line)) of
        (None, h) \<Rightarrow> False
      | (Some b, h) \<Rightarrow> 2 \<le> h)"
  by (auto simp: lineMatches_def parseCardLine_def Let_def split: prod.splits option.splits)

lemma lineMatches_trim_cong:
  "trim l1 = trim l2 \<Longrightarrow> lineMatches db l1 = lineMatches db l2"
  by (simp add: lineMatches_code)

lemma findBest_lineScore:
  "cardScore (toLowerCase (trim line)) (extractCardNumber (trim line)) e = lineScore line e"
  by (simp add: lineScore_def)

lemma charizard_line:
  "trim ''Charizard Base Set Near Mint'' = ''Charizard Base Set Near Mint''"
  "findBest MOCK_CARD_DATABASE (toLowerCase ''Charizard Base Set Near Mint'')
     (extractCardNumber ''Charizard Base Set Near Mint'') = (Some (MOCK_CARD_DATABASE ! 0), 6)"
  "extractCondition (toLowerCase ''Charizard Base Set Near Mint'') = Mint"
  "db_marketPrice (MOCK_CARD_DATABASE ! 0) = 450"
  "str_includes (toLowerCase ''Charizard Base Set Near Mint'') ''near mint''"
  by code_simp+

lemma charizard_only_line:
  "splitLines ''Charizard'' = [''Charizard'']"
  "trim ''Charizard'' = ''Charizard''"
  "findBest MOCK_CARD_DATABASE (toLowerCase ''Charizard'') (extractCardNumber ''Charizard'')
     = (Some (MOCK_CARD_DATABASE ! 0), 4)"
  "db_id (MOCK_CARD_DATABASE ! 0) = 1"
  by code_simp+

lemma POST_charizard:
  "POST MOCK_CARD_DATABASE rnd (Some ''Charizard'') =
     Inr \<lparr>cards = [buildCard (MOCK_CARD_DATABASE ! 0) (extractCondition (toLowerCase ''Charizard''))
                       4 (rnd 0) ''Charizard''],
          totalLines = 1, matched = 1, unmatched = [], unmatchedLines = 0\<rparr>"
proof -
  have "parseCardLine MOCK_CARD_DATABASE (rnd 0) ''Charizard'' =
      Some (buildCard (MOCK_CARD_DATABASE ! 0) (extractCondition (toLowerCase ''Charizard''))
              4 (rnd 0) ''Charizard'')"
    using parseCardLine_Some [of "''Charizard''" MOCK_CARD_DATABASE "MOCK_CARD_DATABASE ! 0" 4 "rnd 0"]
    by (simp only: charizard_only_line) simp
  then show ?thesis
    by (simp add: POST_def charizard_only_line(1) processLines_def processStep_unfold)
qed

lemma charizard_mint_line:
  "trim ''Charizard Mint'' = ''Charizard Mint''"
  "findBest MOCK_CARD_DATABASE (toLowerCase ''Charizard Mint'') (extractCardNumber ''Charizard Mint'')
     = (Some (MOCK_CARD_DATABASE ! 0), 4)"
  "extractCondition (toLowerCase ''Charizard Mint'') = Mint"
  by code_simp+

lemma charizard_mint_parsed:
  "parseCardLine MOCK_CARD_DATABASE r ''Charizard Mint''
     = Some (buildCard (MOCK_CARD_DATABASE ! 0) Mint 4 r ''Charizard Mint'')"
  using parseCardLine_Some [of "''Charizard Mint''" MOCK_CARD_DATABASE "MOCK_CARD_DATABASE ! 0" 4 r]
  by (simp only: charizard_mint_line) simp

lemma prices_of_a_matched_card:
  assumes "parseCardLine db r line = Some c"
  shows "\<exists>e\<in>set db.
           card_name c = db_name e \<and> card_set c = db_set e \<and> card_number c = db_number e
         \<and> marketPrice c = round2 (fmul (db_marketPrice e) (conditionMultipliers (condition c)))
         \<and> ourOffer c =
             round2 (fmul (fmul (db_marketPrice e) (conditionMultipliers (condition c))) (fl (7 / 10)))"
proof -
  from parseCardLine_SomeD [OF assms] obtain b h where bh:
    "findBest db (toLowerCase (trim line)) (extractCardNumber (trim line)) = (Some b, h)"
    "c = buildCard b (extractCondition (toLowerCase (trim line))) h r (trim line)"
    by blast
  from findBest_member [OF bh(1)] have "b \<in> set db" by simp
  with bh(2) show ?thesis by (auto simp: buildCard_fields)
qed

lemma foldl_processStep_ids:
  assumes "foldl (processStep db rnd) (cs, us, k) ls = (cs', us', k')"
    and "k = length cs"
    and "\<forall>i<length cs. \<exists>e. matchedEntry db (cs ! i) = Some e
            \<and> card_id (cs ! i) = fadd (db_id e) (rnd i)"
  shows "\<forall>i<length cs'. \<exists>e. matchedEntry db (cs' ! i) = Some e
            \<and> card_id (cs' ! i) = fadd (db_id e) (rnd i)"
  using assms
proof (induction ls arbitrary: cs us k)
  case Nil
  then show ?case by simp
next
  case (Cons l ls)
  show ?case
  proof (cases "parseCardLine db (rnd k) l")
    case None
    with Cons.prems(1) have "foldl (processStep db rnd) (cs, us @ [trim l], k) ls = (cs', us', k')"
      by (simp add: processStep_unfold)
    from Cons.IH [OF this Cons.prems(2) Cons.prems(3)] show ?thesis .
  next
    case (Some c)
    with Cons.prems(1) have f: "foldl (processStep db rnd) (cs @ [c], us, Suc k) ls = (cs', us', k')"
      by (simp add: processStep_unfold)
    from parseCardLine_SomeD [OF Some] obtain b h where bh:
      "findBest db (toLowerCase (trim l)) (extractCardNumber (trim l)) = (Some b, h)"
      "c = buildCard b (extractCondition (toLowerCase (trim l))) h (rnd k) (trim l)"
      by blast
    from bh have new: "matchedEntry db c = Some b \<and> card_id c = fadd (db_id b) (rnd k)"
      by (simp add: matchedEntry_def buildCard_fields)
    have len: "Suc k = length (cs @ [c])" using Cons.prems(2) by simp
    have all: "\<forall>i<length (cs @ [c]). \<exists>e. matchedEntry db ((cs @ [c]) ! i) = Some e
            \<and> card_id ((cs @ [c]) ! i) = fadd (db_id e) (rnd i)"
    proof (intro allI impI)
      fix i assume "i < length (cs @ [c])"
      then consider "i < length cs" | "i = length cs" by fastforce
      then show "\<exists>e. matchedEntry db ((cs @ [c]) ! i) = Some e
            \<and> card_id ((cs @ [c]) ! i) = fadd (db_id e) (rnd i)"
      proof cases
        case 1
        with Cons.prems(3) show ?thesis by (simp add: nth_append)
      next
        case 2
        with new Cons.prems(2) show ?thesis by (simp add: nth_append)
      qed
    qed
    from Cons.IH [OF f len all] show ?thesis .
  qed
qed

lemma pikachu_lines:
  "trim ''Pikachu Base Set'' \<noteq> []"
  "list_ex (\<lambda>e. 2 \<le> lineScore ''Pikachu Base Set'' e) MOCK_CARD_DATABASE"
  "trim ''random unrelated text xyz'' \<noteq> []"
  "list_all (\<lambda>e. lineScore ''random unrelated text xyz'' e < 2) MOCK_CARD_DATABASE"
  "trim ''random unrelated text xyz'' = ''random unrelated text xyz''"
  by code_simp+

lemma vmax_line:
  "trim ''Pikachu VMAX Vivid Voltage 044/185'' = ''Pikachu VMAX Vivid Voltage 044/185''"
  "findBest MOCK_CARD_DATABASE (toLowerCase ''Pikachu VMAX Vivid Voltage 044/185'')
     (extractCardNumber ''Pikachu VMAX Vivid Voltage 044/185'') = (Some (MOCK_CARD_DATABASE ! 1), 9)"
  by code_simp+

lemma catalog_fragments:
  "length MOCK_CARD_DATABASE = 6"
  "nameAndSet (MOCK_CARD_DATABASE ! 0) = ''Charizard Base Set''"
  "nameAndSet (MOCK_CARD_DATABASE ! 1) = ''Pikachu VMAX Vivid Voltage''"
  "nameAndSet (MOCK_CARD_DATABASE ! 2) = ''Blastoise Base Set''"
  "nameAndSet (MOCK_CARD_DATABASE ! 3) = ''Venusaur Base Set''"
  "nameAndSet (MOCK_CARD_DATABASE ! 4) = ''Pikachu Base Set''"
  "nameAndSet (MOCK_CARD_DATABASE ! 5) = ''Alakazam Base Set''"
  by (simp_all add: MOCK_CARD_DATABASE_def nameAndSet_def)

lemma catalog_fragments_best:
  "findBest MOCK_CARD_DATABASE (toLowerCase (trim ''Charizard Base Set''))
     (extractCardNumber (trim ''Charizard Base Set'')) = (Some (MOCK_CARD_DATABASE ! 0), 6)"
  "findBest MOCK_CARD_DATABASE (toLowerCase (trim ''Pikachu VMAX Vivid Voltage''))
     (extractCardNumber (trim ''Pikachu VMAX Vivid Voltage'')) = (Some (MOCK_CARD_DATABASE ! 1), 7)"
  "findBest MOCK_CARD_DATABASE (toLowerCase (trim ''Blastoise Base Set''))
     (extractCardNumber (trim ''Blastoise Base Set'')) = (Some (MOCK_CARD_DATABASE ! 2), 6)"
  "findBest MOCK_CARD_DATABASE (toLowerCase (trim ''Venusaur Base Set''))
     (extractCardNumber (trim ''Venusaur Base Set'')) = (Some (MOCK_CARD_DATABASE ! 3), 6)"
  "findBest MOCK_CARD_DATABASE (toLowerCase (trim ''Pikachu Base Set''))
     (extractCardNumber (trim ''Pikachu Base Set'')) = (Some (MOCK_CARD_DATABASE ! 4), 6)"
  "findBest MOCK_CARD_DATABASE (toLowerCase (trim ''Alakazam Base Set''))
     (extractCardNumber (trim ''Alakazam Base Set'')) = (Some (MOCK_CARD_DATABASE ! 5), 6)"
  by code_simp+

lemma catalog_fragments_nonblank:
  "trim ''Charizard Base Set'' \<noteq> []"
  "trim ''Pikachu VMAX Vivid Voltage'' \<noteq> []"
  "trim ''Blastoise Base Set'' \<noteq> []"
  "trim ''Venusaur Base Set'' \<noteq> []"
  "trim ''Pikachu Base Set'' \<noteq> []"
  "trim ''Alakazam Base Set'' \<noteq> []"
  by code_simp+

lemma exact_fragments_best:
  assumes "i < length MOCK_CARD_DATABASE"
  shows "trim (nameAndSet (MOCK_CARD_DATABASE ! i)) \<noteq> []
       \<and> (\<exists>s. 5 \<le> s
            \<and> findBest MOCK_CARD_DATABASE (toLowerCase (trim (nameAndSet (MOCK_CARD_DATABASE ! i))))
                 (extractCardNumber (trim (nameAndSet (MOCK_CARD_DATABASE ! i))))
               = (Some (MOCK_CARD_DATABASE ! i), s))"
proof -
  from assms have "i = 0 \<or> i = 1 \<or> i = 2 \<or> i = 3 \<or> i = 4 \<or> i = 5"
    unfolding catalog_fragments(1) by arith
  then show ?thesis
    by (elim disjE)
       (simp_all only: catalog_fragments catalog_fragments_best catalog_fragments_nonblank,
        simp_all)
qed

section \<open>The variants of an entry are never read\<close>

lemma cardScore_variants:
  "cardScore l n (db_variants_update f e) = cardScore l n e"
  by (simp add: cardScore_def)

lemma foldl_bestStep_variants:
  "foldl (bestStep l n) (map_option (db_variants_update f) b0, h0) (map (db_variants_update f) db)
     = (case foldl (bestStep l n) (b0, h0) db of (b, h) \<Rightarrow> (map_option (db_variants_update f) b, h))"
proof (induction db arbitrary: b0 h0)
  case Nil
  then show ?case by simp
next
  case (Cons x xs)
  show ?case
  proof (cases "h0 < cardScore l n x")
    case True
    then show ?thesis
      using Cons.IH [of "Some x" "cardScore l n x"]
      by (simp add: bestStep_def cardScore_variants)
  next
    case False
    then show ?thesis
      using Cons.IH [of b0 h0] by (simp add: bestStep_def cardScore_variants)
  qed
qed

lemma buildCard_variants:
  "buildCard (db_variants_update f b) c h r t = buildCard b c h r t"
  by (simp add: buildCard_def)

lemma parseCardLine_variants:
  "parseCardLine (map (db_variants_update f) db) r line = parseCardLine db r line"
proof -
  have "findBest (map (db_variants_update f) db) l n
      = (case findBest db l n of (b, h) \<Rightarrow> (map_option (db_variants_update f) b, h))" for l n
    using foldl_bestStep_variants [of l n f None 0 db] by (simp add: findBest_def)
  then show ?thesis
    by (auto simp: parseCardLine_def Let_def buildCard_variants split: prod.splits option.splits)
qed

section \<open>The confidence estimate as a sum\<close>

lemma estimate_sum_simps:
  "fmul (fl q) (ind True) = fl q"
  "fmul (fl q) (ind False) = 0"
  "fadd (fadd a b) 0 = fadd a b"
  "fadd (fl q) 0 = fl q"
  by (simp_all add: ind_def fmul_def fadd_def fl_idem fl_zero)

lemma estimate_sum_range:
  "0 \<le> estimate_sum b1 b2 b3 b4 b5" "estimate_sum b1 b2 b3 b4 b5 \<le> 1"
proof -
  have i: "0 \<le> ind b" for b by (simp add: ind_def)
  have l: "0 \<le> fl (q / 10)" if "0 \<le> q" for q using that by (intro fl_nonneg) simp
  show "0 \<le> estimate_sum b1 b2 b3 b4 b5"
    unfolding estimate_sum_def
    by (intro min.boundedI fadd_nonneg fmul_nonneg i l) simp_all
  show "estimate_sum b1 b2 b3 b4 b5 \<le> 1"
    by (simp add: estimate_sum_def)
qed

lemma calculateConfidence_sum:
  "calculateConfidence cardName setName cardNumber =
     estimate_sum (truthy cardName) (truthy cardName \<and> nameIsKnown (optString cardName))
       (truthy setName) (truthy cardNumber)
       (truthy cardNumber \<and> str_includes (optString cardNumber) ''/'')"
  by (cases cardName; cases setName; cases cardNumber)
     (simp_all add: calculateConfidence_def estimate_sum_def truthy_def optString_def ind_def
        fadd_def fmul_def fl_idem fl_zero Let_def)

lemma vmax_signals:
  "nameIsKnown ''Charizard VMAX''"
  "toLowerCase ''Charizard VMAX'' \<notin> set knownPokemon"
  "str_includes ''74/73'' ''/''"
  by code_simp+

section \<open>The claims\<close>

text \<open>
  Claim C1. The scenario of the specification: the line \<open>Charizard Base Set Near Mint\<close>
  against the catalog entry Charizard, Base Set, 450.00 is to give condition NearMint,
  market price 450.00 and offer 315.00. The route gives condition Mint, market price
  495 and offer 346.5, whatever the random number of the call: the keyword \<open>mint\<close> is
  the first key of the table and is contained in \<open>near mint\<close>.
\<close>

theorem C1_near_mint_line_priced_as_mint:
  "map_option (\<lambda>c. (condition c, marketPrice c, ourOffer c))
     (parseCardLine MOCK_CARD_DATABASE r ''Charizard Base Set Near Mint'')
   = Some (Mint, 495, 693 / 2)"
proof -
  have "parseCardLine MOCK_CARD_DATABASE r ''Charizard Base Set Near Mint'' =
      Some (buildCard (MOCK_CARD_DATABASE ! 0) Mint 6 r ''Charizard Base Set Near Mint'')"
    using parseCardLine_Some [of "''Charizard Base Set Near Mint''" MOCK_CARD_DATABASE
        "MOCK_CARD_DATABASE ! 0" 6 r]
    by (simp only: charizard_line) simp
  then show ?thesis
    by (simp add: buildCard_fields charizard_line(4) conditionMultipliers_def mint_price_450)
qed

text \<open>
  Claim C2. The normalizer of the text route is to return NearMint for every text that
  contains \<open>near mint\<close>. It returns Mint for every such text: the table is scanned in
  the order of the source, and its first key \<open>mint\<close> is a substring of \<open>near mint\<close>.
\<close>

theorem C2_near_mint_normalized_to_mint:
  assumes "str_includes (toLowerCase (trim line)) ''near mint''"
  shows "extractCondition (toLowerCase (trim line)) = Mint
       \<and> (\<forall>c. parseCardLine db r line = Some c \<longrightarrow> condition c = Mint)"
proof -
  from assms have m: "extractCondition (toLowerCase (trim line)) = Mint"
    by (intro extractCondition_mint near_mint_has_mint)
  have "condition c = Mint" if "parseCardLine db r line = Some c" for c
    using parseCardLine_SomeD [OF that] m by (auto simp: buildCard_fields)
  with m show ?thesis by blast
qed

theorem C2_near_mint_witness:
  "str_includes (toLowerCase (trim ''Charizard Base Set Near Mint'')) ''near mint''
   \<and> extractCondition (toLowerCase (trim ''Charizard Base Set Near Mint'')) = Mint"
proof -
  have h: "str_includes (toLowerCase (trim ''Charizard Base Set Near Mint'')) ''near mint''"
    by (simp only: charizard_line)
  from C2_near_mint_normalized_to_mint [OF h] h show ?thesis by blast
qed

text \<open>
  Claim C3. For every non-blank line (the route drops blank lines before the loop) and
  every catalog: when some entry scores at least 2, the card returned is built from the
  entry at the first position whose score is the highest (every entry scores at most as
  much, every earlier entry strictly less); when every entry scores below 2, nothing is
  returned and the loop appends the trimmed line to the unmatched texts.
\<close>

theorem C3_first_highest_score_wins:
  assumes "trim line \<noteq> []"
  shows "((\<exists>e\<in>set db. 2 \<le> lineScore line e) \<longrightarrow>
            (\<exists>i<length db.
                (\<forall>j<length db. lineScore line (db ! j) \<le> lineScore line (db ! i))
              \<and> (\<forall>j<i. lineScore line (db ! j) < lineScore line (db ! i))
              \<and> 2 \<le> lineScore line (db ! i)
              \<and> parseCardLine db r line =
                  Some (buildCard (db ! i) (extractCondition (toLowerCase (trim line)))
                          (lineScore line (db ! i)) r (trim line))))
       \<and> ((\<forall>e\<in>set db. lineScore line e < 2) \<longrightarrow>
              parseCardLine db r line = None
            \<and> processStep db rnd (cs, us, k) line = (cs, us @ [trim line], k))"
proof (intro conjI impI)
  assume "\<exists>e\<in>set db. 2 \<le> lineScore line e"
  then have "\<exists>e\<in>set db. 2 \<le> cardScore (toLowerCase (trim line)) (extractCardNumber (trim line)) e"
    by (simp add: lineScore_def)
  from findBest_some [OF this] obtain i where i: "i < length db"
    "findBest db (toLowerCase (trim line)) (extractCardNumber (trim line))
       = (Some (db ! i), lineScore line (db ! i))"
    "2 \<le> lineScore line (db ! i)"
    "\<forall>j<length db. lineScore line (db ! j) \<le> lineScore line (db ! i)"
    "\<forall>j<i. lineScore line (db ! j) < lineScore line (db ! i)"
    unfolding findBest_lineScore by blast
  from parseCardLine_Some [OF assms i(2) i(3)] i(1,3,4,5)
  show "\<exists>i<length db.
          (\<forall>j<length db. lineScore line (db ! j) \<le> lineScore line (db ! i))
        \<and> (\<forall>j<i. lineScore line (db ! j) < lineScore line (db ! i))
        \<and> 2 \<le> lineScore line (db ! i)
        \<and> parseCardLine db r line =
            Some (buildCard (db ! i) (extractCondition (toLowerCase (trim line)))
                    (lineScore line (db ! i)) r (trim line))"
    by blast
next
  assume low: "\<forall>e\<in>set db. lineScore line e < 2"
  then have "\<forall>e\<in>set db. cardScore (toLowerCase (trim line)) (extractCardNumber (trim line)) e < 2"
    by (simp add: lineScore_def)
  from findBest_none [OF this]
  have none: "parseCardLine db r' line = None" for r'
    by (auto simp: parseCardLine_def Let_def split: prod.splits option.splits)
  then show "parseCardLine db r line = None" .
  from none show "processStep db rnd (cs, us, k) line = (cs, us @ [trim line], k)"
    by (simp add: processStep_unfold)
qed

theorem C3_matched_and_unmatched_witness:
  "trim ''Pikachu Base Set'' \<noteq> []
   \<and> (\<exists>i<length MOCK_CARD_DATABASE.
         2 \<le> lineScore ''Pikachu Base Set'' (MOCK_CARD_DATABASE ! i)
       \<and> parseCardLine MOCK_CARD_DATABASE 0 ''Pikachu Base Set'' =
           Some (buildCard (MOCK_CARD_DATABASE ! i)
                   (extractCondition (toLowerCase (trim ''Pikachu Base Set'')))
                   (lineScore ''Pikachu Base Set'' (MOCK_CARD_DATABASE ! i)) 0
                   (trim ''Pikachu Base Set'')))
   \<and> parseCardLine MOCK_CARD_DATABASE 0 ''random unrelated text xyz'' = None
   \<and> processStep MOCK_CARD_DATABASE rnd_half ([], [], 0) ''random unrelated text xyz''
       = ([], [''random unrelated text xyz''], 0)"
proof -
  have e: "\<exists>e\<in>set MOCK_CARD_DATABASE. 2 \<le> lineScore ''Pikachu Base Set'' e"
    using pikachu_lines(2) by (simp add: list_ex_iff)
  have l: "\<forall>e\<in>set MOCK_CARD_DATABASE. lineScore ''random unrelated text xyz'' e < 2"
    using pikachu_lines(4) by (simp add: list_all_iff)
  from C3_first_highest_score_wins [OF pikachu_lines(1), of MOCK_CARD_DATABASE 0] e
  have "\<exists>i<length MOCK_CARD_DATABASE.
         2 \<le> lineScore ''Pikachu Base Set'' (MOCK_CARD_DATABASE ! i)
       \<and> parseCardLine MOCK_CARD_DATABASE 0 ''Pikachu Base Set'' =
           Some (buildCard (MOCK_CARD_DATABASE ! i)
                   (extractCondition (toLowerCase (trim ''Pikachu Base Set'')))
                   (lineScore ''Pikachu Base Set'' (MOCK_CARD_DATABASE ! i)) 0
                   (trim ''Pikachu Base Set''))"
    by blast
  moreover from C3_first_highest_score_wins [OF pikachu_lines(3), of MOCK_CARD_DATABASE 0
      rnd_half "[]" "[]" 0] l
  have "parseCardLine MOCK_CARD_DATABASE 0 ''random unrelated text xyz'' = None
      \<and> processStep MOCK_CARD_DATABASE rnd_half ([], [], 0) ''random unrelated text xyz''
          = ([], [''random unrelated text xyz''], 0)"
    by (simp add: pikachu_lines(5))
  ultimately show ?thesis using pikachu_lines(1) by blast
qed

text \<open>
  Claim C4. For every card the route returns (its catalog is the constant
  \<open>MOCK_CARD_DATABASE\<close>), whatever the line and the random number: the card is built
  from a catalog entry, its market price is round2(price times multiplier) and its offer
  is round2(round2(price times multiplier) times 0.7), the factor 0.7 applied to the
  price at condition already rounded. This holds in the arithmetic of the route, with
  binary64 products and round2(x) = \<open>Math.round(x * 100) / 100\<close>, and it holds for the
  decimal numbers with a half rounded up: the route reports the binary64 values nearest
  to them. (The route multiplies the condition price before its rounding by 0.7; on the
  six prices of the catalog and the five conditions that gives the same offers.)
\<close>

theorem C4_prices_on_the_catalog:
  assumes "parseCardLine MOCK_CARD_DATABASE r line = Some c"
  shows "\<exists>e\<in>set MOCK_CARD_DATABASE.
           card_name c = db_name e \<and> card_set c = db_set e \<and> card_number c = db_number e
         \<and> marketPrice c = round2 (fmul (db_marketPrice e) (conditionMultipliers (condition c)))
         \<and> ourOffer c = spec_offerPrice (db_marketPrice e) (condition c)
         \<and> marketPrice c = fl (dec_marketPrice (db_marketPrice e) (condition c))
         \<and> ourOffer c = fl (dec_offerPrice (db_marketPrice e) (condition c))"
proof -
  from prices_of_a_matched_card [OF assms] obtain e where e: "e \<in> set MOCK_CARD_DATABASE"
    "card_name c = db_name e" "card_set c = db_set e" "card_number c = db_number e"
    "marketPrice c = round2 (fmul (db_marketPrice e) (conditionMultipliers (condition c)))"
    "ourOffer c =
       round2 (fmul (fmul (db_marketPrice e) (conditionMultipliers (condition c))) (fl (7 / 10)))"
    by blast
  from e(6) current_catalog_offers_agree [OF e(1), of "condition c"]
  have o: "ourOffer c = spec_offerPrice (db_marketPrice e) (condition c)" by simp
  from e(5,6) current_catalog_decimal_prices [OF e(1), of "condition c"]
  have d: "marketPrice c = fl (dec_marketPrice (db_marketPrice e) (condition c))"
    "ourOffer c = fl (dec_offerPrice (db_marketPrice e) (condition c))"
    by simp_all
  from e(1,2,3,4,5) o d show ?thesis by blast
qed

theorem C4_charizard_mint_witness:
  "map_option (\<lambda>c. (card_name c, condition c, marketPrice c, ourOffer c))
     (parseCardLine MOCK_CARD_DATABASE 0 ''Charizard Mint'')
     = Some (''Charizard'', Mint, fl (dec_marketPrice 450 Mint), fl (dec_offerPrice 450 Mint))
   \<and> dec_marketPrice 450 Mint = 495
   \<and> dec_offerPrice 450 Mint = 693 / 2"
proof -
  let ?c = "buildCard (MOCK_CARD_DATABASE ! 0) Mint 4 0 ''Charizard Mint''"
  have p: "parseCardLine MOCK_CARD_DATABASE 0 ''Charizard Mint'' = Some ?c"
    by (rule charizard_mint_parsed)
  from C4_prices_on_the_catalog [OF p] obtain e where e:
    "e \<in> set MOCK_CARD_DATABASE"
    "card_name ?c = db_name e"
    "marketPrice ?c = fl (dec_marketPrice (db_marketPrice e) (condition ?c))"
    "ourOffer ?c = fl (dec_offerPrice (db_marketPrice e) (condition ?c))"
    by blast
  have n: "card_name ?c = ''Charizard''" "condition ?c = Mint"
    by (simp_all add: buildCard_fields MOCK_CARD_DATABASE_def)
  from e(1,2) n(1) have "db_marketPrice e = 450"
    by (auto simp: MOCK_CARD_DATABASE_def)
  with e(3,4) n(2) have m: "marketPrice ?c = fl (dec_marketPrice 450 Mint)"
    "ourOffer ?c = fl (dec_offerPrice 450 Mint)"
    by simp_all
  have "map_option (\<lambda>c. (card_name c, condition c, marketPrice c, ourOffer c))
     (parseCardLine MOCK_CARD_DATABASE 0 ''Charizard Mint'')
     = Some (''Charizard'', Mint, fl (dec_marketPrice 450 Mint), fl (dec_offerPrice 450 Mint))"
    unfolding p option.map using n m by (simp only:)
  then show ?thesis using charizard_mint_decimal(2,3) by blast
qed

text \<open>
  Claim C5. The estimate is to add 0.2 when the card name is in the list of known
  names. The service adds it when the lower-cased name contains a known name: for the
  name \<open>Charizard VMAX\<close> alone, which contains \<open>charizard\<close> and is not in the list, it
  returns 0.7 where the sum of the claim is 0.5.
\<close>

theorem C5_known_name_is_a_substring_test:
  "calculateConfidence (Some ''Charizard VMAX'') None None = fl (7 / 10)
   \<and> spec_estimate (Some ''Charizard VMAX'') None None = 1 / 2
   \<and> fl (7 / 10) \<noteq> 1 / 2"
proof -
  have "calculateConfidence (Some ''Charizard VMAX'') None None
      = estimate_sum True True False False False"
    by (simp add: calculateConfidence_sum truthy_def optString_def vmax_signals)
  also have "\<dots> = min (fadd (fadd (fl (1 / 10)) (fl (4 / 10))) (fl (2 / 10))) 1"
    by (simp only: estimate_sum_def estimate_sum_simps)
  also have "\<dots> = fl (7 / 10)"
    unfolding tenths literals by (simp add: confidence_sums)
  finally have a: "calculateConfidence (Some ''Charizard VMAX'') None None = fl (7 / 10)" .
  have "spec_estimate (Some ''Charizard VMAX'') None None = estimate_sum True False False False False"
    by (simp add: spec_estimate_def truthy_def optString_def vmax_signals)
  also have "\<dots> = min (fadd (fl (1 / 10)) (fl (4 / 10))) 1"
    by (simp only: estimate_sum_def estimate_sum_simps)
  also have "\<dots> = 1 / 2"
    unfolding tenths by (simp add: confidence_sums)
  finally have b: "spec_estimate (Some ''Charizard VMAX'') None None = 1 / 2" .
  have "fl (7 / 10) \<noteq> 1 / 2" unfolding literals by simp
  with a b show ?thesis by blast
qed

text \<open>
  Claim C5, amended. The estimate is min(0.1 + 0.4 [card name extracted]
  + 0.2 [the lower-cased card name contains one of the known names]
  + 0.3 [set name extracted] + 0.2 [card number extracted] + 0.1 [number contains a
  slash], 1.0), each sum rounded as the service rounds it; it always lies between 0
  and 1, and for the card name \<open>Charizard VMAX\<close>, the set name \<open>Champion's Path\<close> and the
  card number \<open>74/73\<close> it is exactly 1.
\<close>

theorem C5_confidence_estimate:
  "calculateConfidence cardName setName cardNumber =
     estimate_sum (truthy cardName) (truthy cardName \<and> nameIsKnown (optString cardName))
       (truthy setName) (truthy cardNumber)
       (truthy cardNumber \<and> str_includes (optString cardNumber) ''/'')
   \<and> 0 \<le> calculateConfidence cardName setName cardNumber
   \<and> calculateConfidence cardName setName cardNumber \<le> 1
   \<and> calculateConfidence (Some ''Charizard VMAX'') (Some ''Champion's Path'') (Some ''74/73'') = 1"
proof -
  have "calculateConfidence (Some ''Charizard VMAX'') (Some ''Champion's Path'') (Some ''74/73'')
      = estimate_sum True True True True True"
    by (simp add: calculateConfidence_sum truthy_def optString_def vmax_signals)
  also have "\<dots> = min (fadd (fadd (fadd (fadd (fadd (fl (1 / 10)) (fl (4 / 10))) (fl (2 / 10)))
      (fl (3 / 10))) (fl (2 / 10))) (fl (1 / 10))) 1"
    by (simp only: estimate_sum_def estimate_sum_simps)
  also have "\<dots> = 1"
    unfolding tenths by (simp add: confidence_sums)
  finally have s: "calculateConfidence (Some ''Charizard VMAX'') (Some ''Champion's Path'')
      (Some ''74/73'') = 1" .
  show ?thesis
    using s estimate_sum_range by (simp add: calculateConfidence_sum)
qed

text \<open>
  Claim C6. Two runs of the route on the same text are to give identical results,
  the \<open>id\<close> fields included. The \<open>id\<close> of a matched card is the catalog id plus the
  value of \<open>Math.random()\<close>, so two runs that draw 0.25 and 0.5 answer the text
  \<open>Charizard\<close> with the ids 1.25 and 1.5.
\<close>

theorem C6_ids_differ_between_runs:
  "map_sum id (\<lambda>d. map card_id (cards d)) (POST MOCK_CARD_DATABASE rnd_quarter (Some ''Charizard''))
     = Inr [5 / 4]
   \<and> map_sum id (\<lambda>d. map card_id (cards d)) (POST MOCK_CARD_DATABASE rnd_half (Some ''Charizard''))
     = Inr [3 / 2]
   \<and> POST MOCK_CARD_DATABASE rnd_quarter (Some ''Charizard'')
     \<noteq> POST MOCK_CARD_DATABASE rnd_half (Some ''Charizard'')"
proof -
  have q: "map_sum id (\<lambda>d. map card_id (cards d))
      (POST MOCK_CARD_DATABASE rnd_quarter (Some ''Charizard'')) = Inr [5 / 4]"
    by (simp add: POST_charizard buildCard_fields charizard_only_line(4) rnd_quarter_def charizard_ids)
  have h: "map_sum id (\<lambda>d. map card_id (cards d))
      (POST MOCK_CARD_DATABASE rnd_half (Some ''Charizard'')) = Inr [3 / 2]"
    by (simp add: POST_charizard buildCard_fields charizard_only_line(4) rnd_half_def charizard_ids)
  have "POST MOCK_CARD_DATABASE rnd_quarter (Some ''Charizard'')
      \<noteq> POST MOCK_CARD_DATABASE rnd_half (Some ''Charizard'')"
  proof
    assume "POST MOCK_CARD_DATABASE rnd_quarter (Some ''Charizard'')
      = POST MOCK_CARD_DATABASE rnd_half (Some ''Charizard'')"
    with q h have "(Inr [5 / 4] :: api_error + rat list) = Inr [3 / 2]" by simp
    then show False by simp
  qed
  with q h show ?thesis by blast
qed

text \<open>
  Claim C6, amended. Two runs of the route on the same text, with any two sequences
  of random numbers, give the same error or the same response once the \<open>id\<close> of every
  card is blanked: the same cards in the same order in every other field, the same
  counts and the same list of unmatched texts. The \<open>id\<close> of the card at position \<open>i\<close> of
  a response is the \<open>id\<close> of the catalog entry the card was built from plus the value of
  the \<open>i\<close>-th call of \<open>Math.random()\<close> of that run.
\<close>

theorem C6_deterministic_up_to_id:
  "eraseIds (POST db rnd1 text) = eraseIds (POST db rnd2 text)
   \<and> (\<forall>d. POST db rnd1 text = Inr d \<longrightarrow>
         (\<forall>i<length (cards d). \<exists>e. matchedEntry db (cards d ! i) = Some e
              \<and> card_id (cards d ! i) = fadd (db_id e) (rnd1 i)))"
proof (cases "text")
  case None
  then show ?thesis by (simp add: POST_def)
next
  case (Some t)
  show ?thesis
  proof (cases "t = [] \<or> splitLines t = []")
    case True
    with Some show ?thesis by (auto simp: POST_def Let_def)
  next
    case False
    obtain cs1 us1 k1 where r1: "processLines db rnd1 (splitLines t) = (cs1, us1, k1)"
      by (cases "processLines db rnd1 (splitLines t)") auto
    obtain cs2 us2 k2 where r2: "processLines db rnd2 (splitLines t) = (cs2, us2, k2)"
      by (cases "processLines db rnd2 (splitLines t)") auto
    have eq: "map eraseId cs1 = map eraseId cs2 \<and> us1 = us2"
      using foldl_processStep_erase [of "[]" "[]" db rnd1 "[]" 0 "splitLines t" cs1 us1 k1 rnd2 0 cs2 us2 k2]
        r1 r2 by (simp add: processLines_def)
    then have len: "length cs1 = length cs2"
      using length_map [of eraseId cs1] length_map [of eraseId cs2] by simp
    have ids: "\<forall>i<length cs1. \<exists>e. matchedEntry db (cs1 ! i) = Some e
              \<and> card_id (cs1 ! i) = fadd (db_id e) (rnd1 i)"
      using foldl_processStep_ids [of db rnd1 "[]" "[]" 0 "splitLines t" cs1 us1 k1] r1
      by (simp add: processLines_def)
    have post: "POST db rnd1 text = Inr \<lparr>cards = cs1, totalLines = length (splitLines t),
        matched = length cs1, unmatched = us1, unmatchedLines = length us1\<rparr>"
      using Some False r1 by (simp add: POST_def Let_def)
    have a: "eraseIds (POST db rnd1 text) = eraseIds (POST db rnd2 text)"
      using Some False r1 r2 eq len by (simp add: POST_def Let_def eraseIds_def)
    have b: "\<forall>d. POST db rnd1 text = Inr d \<longrightarrow>
         (\<forall>i<length (cards d). \<exists>e. matchedEntry db (cards d ! i) = Some e
              \<and> card_id (cards d ! i) = fadd (db_id e) (rnd1 i))"
      unfolding post using ids by auto
    from a b show ?thesis by blast
  qed
qed

theorem C6_charizard_id_witness:
  "map_sum id (\<lambda>d. map (\<lambda>c. (matchedEntry MOCK_CARD_DATABASE c, card_id c)) (cards d))
     (POST MOCK_CARD_DATABASE rnd_quarter (Some ''Charizard''))
   = Inr [(Some (MOCK_CARD_DATABASE ! 0), fadd (db_id (MOCK_CARD_DATABASE ! 0)) (rnd_quarter 0))]
   \<and> fadd (db_id (MOCK_CARD_DATABASE ! 0)) (rnd_quarter 0) = 5 / 4"
proof -
  let ?c = "buildCard (MOCK_CARD_DATABASE ! 0) (extractCondition (toLowerCase ''Charizard''))
      4 (rnd_quarter 0) ''Charizard''"
  let ?d = "\<lparr>cards = [?c], totalLines = 1, matched = 1, unmatched = [], unmatchedLines = 0\<rparr>"
  have p: "POST MOCK_CARD_DATABASE rnd_quarter (Some ''Charizard'') = Inr ?d"
    by (rule POST_charizard)
  have m: "matchedEntry MOCK_CARD_DATABASE ?c = Some (MOCK_CARD_DATABASE ! 0)"
    by (simp add: matchedEntry_def buildCard_fields charizard_only_line(3))
  from C6_deterministic_up_to_id [of MOCK_CARD_DATABASE rnd_quarter "Some ''Charizard''" rnd_quarter] p
  have "\<forall>i<length (cards ?d). \<exists>e. matchedEntry MOCK_CARD_DATABASE (cards ?d ! i) = Some e
              \<and> card_id (cards ?d ! i) = fadd (db_id e) (rnd_quarter i)"
    by blast
  then have "\<exists>e. matchedEntry MOCK_CARD_DATABASE ?c = Some e
              \<and> card_id ?c = fadd (db_id e) (rnd_quarter 0)"
    by simp
  with m have i: "card_id ?c = fadd (db_id (MOCK_CARD_DATABASE ! 0)) (rnd_quarter 0)"
    by simp
  have v: "fadd (db_id (MOCK_CARD_DATABASE ! 0)) (rnd_quarter 0) = 5 / 4"
    by (simp add: charizard_only_line(4) rnd_quarter_def charizard_ids)
  have "map_sum id (\<lambda>d. map (\<lambda>c. (matchedEntry MOCK_CARD_DATABASE c, card_id c)) (cards d))
     (POST MOCK_CARD_DATABASE rnd_quarter (Some ''Charizard''))
   = Inr [(Some (MOCK_CARD_DATABASE ! 0), fadd (db_id (MOCK_CARD_DATABASE ! 0)) (rnd_quarter 0))]"
    unfolding p using m i by simp
  with v show ?thesis by blast
qed

text \<open>
  Claim C7. The offer pricer is to fail when the condition is not among the entry's
  supported conditions, and every entry of the current catalog is to support all five.
  The first entry of the catalog does not list Mint among its variants, and the line
  \<open>Charizard Mint\<close> is priced all the same: condition Mint, market price 495, offer 346.5.
\<close>

theorem C7_mint_priced_though_not_a_variant:
  "Mint \<notin> set (db_variants (MOCK_CARD_DATABASE ! 0))
   \<and> map_option (\<lambda>c. (card_name c, condition c, marketPrice c, ourOffer c))
        (parseCardLine MOCK_CARD_DATABASE 0 ''Charizard Mint'')
      = Some (''Charizard'', Mint, 495, 693 / 2)"
proof -
  have "Mint \<notin> set (db_variants (MOCK_CARD_DATABASE ! 0))"
    by (simp add: MOCK_CARD_DATABASE_def four_variants_def)
  moreover have "db_name (MOCK_CARD_DATABASE ! 0) = ''Charizard''"
    by (simp add: MOCK_CARD_DATABASE_def)
  ultimately show ?thesis
    by (simp add: charizard_mint_parsed buildCard_fields charizard_line(4)
        conditionMultipliers_def mint_price_450)
qed

text \<open>
  Claim C7, amended. The pricer never consults the variants of an entry and never
  fails: replacing the variants of every catalog entry by anything else leaves the
  result of the parser unchanged, and every non-blank line on which some entry scores
  at least 2 gets a priced card, whatever condition was detected. Every entry of the
  current catalog lists four conditions (NearMint, LightlyPlayed, ModeratelyPlayed,
  HeavilyPlayed), without Mint.
\<close>

theorem C7_pricing_ignores_variants:
  "(\<forall>e\<in>set MOCK_CARD_DATABASE.
      db_variants e = [NearMint, LightlyPlayed, ModeratelyPlayed, HeavilyPlayed])
   \<and> parseCardLine (map (db_variants_update f) db) r line = parseCardLine db r line
   \<and> (trim line \<noteq> [] \<longrightarrow> (\<exists>e\<in>set db. 2 \<le> lineScore line e) \<longrightarrow>
        (\<exists>c. parseCardLine db r line = Some c
           \<and> marketPrice c = round2 (fmul (db_marketPrice (the (fst (findBest db (toLowerCase (trim line))
                  (extractCardNumber (trim line)))))) (conditionMultipliers (condition c)))))"
proof (intro conjI impI)
  show "\<forall>e\<in>set MOCK_CARD_DATABASE.
      db_variants e = [NearMint, LightlyPlayed, ModeratelyPlayed, HeavilyPlayed]"
    by (simp add: MOCK_CARD_DATABASE_def four_variants_def)
  show "parseCardLine (map (db_variants_update f) db) r line = parseCardLine db r line"
    by (rule parseCardLine_variants)
next
  assume nb: "trim line \<noteq> []" and "\<exists>e\<in>set db. 2 \<le> lineScore line e"
  then have "\<exists>e\<in>set db. 2 \<le> cardScore (toLowerCase (trim line)) (extractCardNumber (trim line)) e"
    by (simp add: lineScore_def)
  from findBest_some [OF this] obtain i where i:
    "findBest db (toLowerCase (trim line)) (extractCardNumber (trim line))
       = (Some (db ! i), lineScore line (db ! i))"
    "2 \<le> lineScore line (db ! i)"
    unfolding findBest_lineScore by blast
  from parseCardLine_Some [OF nb i(1) i(2)] i(1)
  show "\<exists>c. parseCardLine db r line = Some c
           \<and> marketPrice c = round2 (fmul (db_marketPrice (the (fst (findBest db (toLowerCase (trim line))
                  (extractCardNumber (trim line)))))) (conditionMultipliers (condition c)))"
    by (simp add: buildCard_fields)
qed

theorem C7_no_variants_witness:
  "db_variants (MOCK_CARD_DATABASE ! 0) = [NearMint, LightlyPlayed, ModeratelyPlayed, HeavilyPlayed]
   \<and> parseCardLine (map (db_variants_update (\<lambda>v. [])) MOCK_CARD_DATABASE) 0 ''Charizard Mint''
       = parseCardLine MOCK_CARD_DATABASE 0 ''Charizard Mint''
   \<and> parseCardLine MOCK_CARD_DATABASE 0 ''Charizard Mint'' \<noteq> None"
proof -
  have m: "MOCK_CARD_DATABASE ! 0 \<in> set MOCK_CARD_DATABASE"
    by (simp add: MOCK_CARD_DATABASE_def)
  from C7_pricing_ignores_variants [of "\<lambda>v. []" MOCK_CARD_DATABASE 0 "''Charizard Mint''"] m
  show ?thesis by (simp add: charizard_mint_parsed)
qed

text \<open>
  Claim C8. The loop over the lines puts every line in exactly one of the two arrays
  and keeps the order of the input in both: the original texts of the cards are the
  trimmed lines that match, in order, the unmatched texts are the trimmed lines that do
  not, in order, and no text is in both.
\<close>

theorem C8_each_line_in_one_list_in_order:
  assumes "processLines db rnd ls = (cs, us, k)"
  shows "map originalText cs = map trim (filter (lineMatches db) ls)
       \<and> us = map trim (filter (\<lambda>l. \<not> lineMatches db l) ls)
       \<and> length cs + length us = length ls
       \<and> set (map originalText cs) \<inter> set us = {}"
proof -
  from assms have a: "map originalText cs = map trim (filter (lineMatches db) ls)"
    and b: "us = map trim (filter (\<lambda>l. \<not> lineMatches db l) ls)"
    using foldl_processStep_texts [of db rnd "[]" "[]" 0 ls cs us k]
    by (simp_all add: processLines_def)
  have "length (map originalText cs) + length us = length ls"
    unfolding a b by (simp add: sum_length_filter_compl)
  then have c: "length cs + length us = length ls" by simp
  have d: "set (map originalText cs) \<inter> set us = {}"
  proof (rule ccontr)
    assume "set (map originalText cs) \<inter> set us \<noteq> {}"
    then obtain t where "t \<in> set (map originalText cs)" "t \<in> set us" by blast
    then obtain l1 l2 where "l1 \<in> set ls" "lineMatches db l1" "t = trim l1"
      "l2 \<in> set ls" "\<not> lineMatches db l2" "t = trim l2"
      unfolding a b by auto
    then show False using lineMatches_trim_cong [of l1 l2 db] by simp
  qed
  from a b c d show ?thesis by blast
qed

theorem C8_three_lines_witness:
  "(case processLines MOCK_CARD_DATABASE rnd_half
           [''Charizard Base Set'', ''random unrelated text xyz'', '' Blastoise lp #2 ''] of
      (cs, us, k) \<Rightarrow>
        map originalText cs = [''Charizard Base Set'', ''Blastoise lp #2'']
        \<and> us = [''random unrelated text xyz''])"
proof -
  let ?ls = "[''Charizard Base Set'', ''random unrelated text xyz'', '' Blastoise lp #2 '']"
  obtain cs us k where r: "processLines MOCK_CARD_DATABASE rnd_half ?ls = (cs, us, k)"
    by (cases "processLines MOCK_CARD_DATABASE rnd_half ?ls") auto
  have m: "map trim (filter (lineMatches MOCK_CARD_DATABASE) ?ls)
      = [''Charizard Base Set'', ''Blastoise lp #2'']"
    by code_simp
  have u: "map trim (filter (\<lambda>l. \<not> lineMatches MOCK_CARD_DATABASE l) ?ls)
      = [''random unrelated text xyz'']"
    by code_simp
  from C8_each_line_in_one_list_in_order [OF r] show ?thesis
    unfolding r m u by simp
qed

text \<open>
  Claim C9. For every entry of the current catalog, the fragment made of the entry's
  name, a space and its set is matched to that entry, with a score of at least 5: the
  loop over the catalog ends with that entry as best match, and the parser returns the
  card built from it.
\<close>

theorem C9_name_and_set_matches_its_entry:
  assumes "E \<in> set MOCK_CARD_DATABASE"
  shows "\<exists>s. 5 \<le> s
       \<and> findBest MOCK_CARD_DATABASE (toLowerCase (trim (nameAndSet E)))
            (extractCardNumber (trim (nameAndSet E))) = (Some E, s)
       \<and> parseCardLine MOCK_CARD_DATABASE r (nameAndSet E) =
            Some (buildCard E (extractCondition (toLowerCase (trim (nameAndSet E)))) s r
                    (trim (nameAndSet E)))"
proof -
  from assms obtain i where i: "i < length MOCK_CARD_DATABASE" "E = MOCK_CARD_DATABASE ! i"
    by (auto simp: in_set_conv_nth)
  from exact_fragments_best [OF i(1)] i(2)
  obtain s where s: "findBest MOCK_CARD_DATABASE (toLowerCase (trim (nameAndSet E)))
      (extractCardNumber (trim (nameAndSet E))) = (Some E, s)" "5 \<le> s" "trim (nameAndSet E) \<noteq> []"
    by auto
  from s(2) have "2 \<le> s" by simp
  from parseCardLine_Some [OF s(3) s(1) this] s(1,2) show ?thesis by blast
qed

theorem C9_pikachu_witness:
  "MOCK_CARD_DATABASE ! 4 \<in> set MOCK_CARD_DATABASE
   \<and> nameAndSet (MOCK_CARD_DATABASE ! 4) = ''Pikachu Base Set''
   \<and> (\<exists>s. 5 \<le> s
        \<and> findBest MOCK_CARD_DATABASE (toLowerCase (trim ''Pikachu Base Set''))
             (extractCardNumber (trim ''Pikachu Base Set'')) = (Some (MOCK_CARD_DATABASE ! 4), s))"
proof -
  have m: "MOCK_CARD_DATABASE ! 4 \<in> set MOCK_CARD_DATABASE"
    by (simp add: MOCK_CARD_DATABASE_def)
  have n: "nameAndSet (MOCK_CARD_DATABASE ! 4) = ''Pikachu Base Set''"
    by (simp add: MOCK_CARD_DATABASE_def nameAndSet_def)
  from C9_name_and_set_matches_its_entry [OF m, of 0] m n show ?thesis
    by auto
qed

text \<open>
  Claim C10. On the text route the confidence of a matched card is its highest score
  divided by 5, with no cap: the line \<open>Pikachu VMAX Vivid Voltage 044/185\<close> matches the
  name (3), the set (2), the card number (2) and both words of the name (2), scores 9,
  and has confidence 1.8, above 1.
\<close>

theorem C10_confidence_is_score_over_5_uncapped:
  "(parseCardLine db r line = Some c \<longrightarrow> confidence c = fdiv (of_int (lineHighestScore db line)) 5)
   \<and> lineHighestScore MOCK_CARD_DATABASE ''Pikachu VMAX Vivid Voltage 044/185'' = 9
   \<and> map_option confidence (parseCardLine MOCK_CARD_DATABASE r ''Pikachu VMAX Vivid Voltage 044/185'')
       = Some (fdiv 9 5)
   \<and> 1 < fdiv 9 5"
proof -
  have g: "confidence c = fdiv (of_int (lineHighestScore db line)) 5"
    if "parseCardLine db r line = Some c"
    using parseCardLine_SomeD [OF that] by (auto simp: buildCard_fields lineHighestScore_def)
  have h: "lineHighestScore MOCK_CARD_DATABASE ''Pikachu VMAX Vivid Voltage 044/185'' = 9"
    by (simp add: lineHighestScore_def vmax_line)
  have "parseCardLine MOCK_CARD_DATABASE r ''Pikachu VMAX Vivid Voltage 044/185'' =
      Some (buildCard (MOCK_CARD_DATABASE ! 1)
              (extractCondition (toLowerCase ''Pikachu VMAX Vivid Voltage 044/185'')) 9 r
              ''Pikachu VMAX Vivid Voltage 044/185'')"
    using parseCardLine_Some [of "''Pikachu VMAX Vivid Voltage 044/185''" MOCK_CARD_DATABASE
        "MOCK_CARD_DATABASE ! 1" 9 r]
    by (simp only: vmax_line) simp
  then have p: "map_option confidence
      (parseCardLine MOCK_CARD_DATABASE r ''Pikachu VMAX Vivid Voltage 044/185'') = Some (fdiv 9 5)"
    by (simp add: buildCard_fields)
  have "1 < fdiv 9 5" by (simp add: confidence_9)
  with g h p show ?thesis by blast
qed

theorem C10_score_9_witness:
  "map_option confidence (parseCardLine MOCK_CARD_DATABASE 0 ''Pikachu VMAX Vivid Voltage 044/185'')
       = Some (fdiv (of_int (lineHighestScore MOCK_CARD_DATABASE ''Pikachu VMAX Vivid Voltage 044/185'')) 5)
   \<and> fdiv (of_int (lineHighestScore MOCK_CARD_DATABASE ''Pikachu VMAX Vivid Voltage 044/185'')) 5
       = 8106479329266893 / 4503599627370496"
proof -
  let ?l = "''Pikachu VMAX Vivid Voltage 044/185''"
  have s: "parseCardLine MOCK_CARD_DATABASE 0 ?l \<noteq> None"
    using lineMatches_code [of MOCK_CARD_DATABASE ?l] by (simp add: lineMatches_def vmax_line)
  then obtain c where c: "parseCardLine MOCK_CARD_DATABASE 0 ?l = Some c" by auto
  from C10_confidence_is_score_over_5_uncapped [of MOCK_CARD_DATABASE 0 ?l c] c
  show ?thesis by (simp add: confidence_9)
qed

end
